theory Spec2Isabelle
  imports Main "HOL-Library.AList" "HOL-Library.Multiset" "HOL-Library.Char_ord"
    "HOL-Library.List_Lexorder"
begin

section \<open>Records of the data-quality summary (domain/dataQuality.ts)\<close>

text \<open>
  The field \<open>id\<close> of the source is \<open>id'\<close> here. The fields \<open>duplicates\<close> and \<open>seqGaps\<close> of
  an issue are written \<open>ReferralIssue.duplicates\<close> and \<open>ReferralIssue.seqGaps\<close>; the
  unqualified names are those of the metrics of a referral state, declared below.
\<close>

record ReferralIssue =
  id' :: string
  duplicates :: int
  seqGaps :: int
  overrides :: int
  score :: int


section \<open>Domain model (domain/models.ts)\<close>

text \<open>
  The TypeScript unions of string literals (\<open>EventType\<close>, \<open>Status\<close>) are plain strings at
  run time, and the upload endpoint hands unvalidated JSON to \<open>reconcile\<close>; both fields are
  therefore strings here. An optional payload field is an \<open>option\<close>. \<open>seq\<close> is a JavaScript
  number whose value is an integer; the arithmetic that the code does on sequence numbers
  is that of IEEE doubles and is modelled by rounding each result (\<open>round_to_double\<close>
  below). The counters that the code only increments stay far below \<open>2^53\<close> (an array
  has fewer than \<open>2^32\<close> elements) and are exact.
\<close>

record Payload =
  status :: "string option"
  appt_id :: "string option"
  start_time :: "string option"

record ReferralEvent =
  referral_id :: string
  seq :: int
  type :: string
  payload :: Payload

record Appointment =
  appt_id :: string
  start_time :: string

record Metrics =
  duplicates :: int
  seqGaps :: int
  terminalOverrides :: int
  reschedules :: int
  cancelledAppts :: int

section \<open>JavaScript objects used as dictionaries\<close>

text \<open>
  An object literal \<open>{}\<close> keeps its own properties in insertion order and inherits the
  properties of \<open>Object.prototype\<close>: reading \<open>obj[key]\<close> for a key that is not an own
  property walks the prototype chain. The names below are the properties every plain
  object inherits (ECMAScript standard, including Annex B).
\<close>

definition Object_prototype_keys :: "string list" where
  "Object_prototype_keys =
     [''constructor'', ''__defineGetter__'', ''__defineSetter__'', ''hasOwnProperty'',
      ''__lookupGetter__'', ''__lookupSetter__'', ''isPrototypeOf'', ''propertyIsEnumerable'',
      ''toString'', ''valueOf'', ''__proto__'', ''toLocaleString'']"

text \<open>
  Property enumeration (\<open>Object.keys\<close>, \<open>Object.values\<close>) lists the own properties whose
  name is an array index (a canonical decimal numeral below \<open>2^32 - 1\<close>) first, in
  ascending numeric order, and then the remaining string keys in insertion order.
\<close>

definition is_digit :: "char \<Rightarrow> bool" where
  "is_digit c = (c \<in> set ''0123456789'')"

definition decimal_value :: "string \<Rightarrow> nat" where
  "decimal_value s = foldl (\<lambda>n c. 10 * n + (of_char c - 48)) 0 s"

definition array_index :: "string \<Rightarrow> nat option" where
  "array_index s =
     (if s \<noteq> [] \<and> list_all is_digit s \<and> (s = ''0'' \<or> hd s \<noteq> CHR ''0'')
      then (if decimal_value s < 4294967295 then Some (decimal_value s) else None)
      else None)"

definition index_rank :: "string \<Rightarrow> nat" where
  "index_rank k = (case array_index k of Some n \<Rightarrow> n | None \<Rightarrow> 0)"

definition own_properties :: "(string \<times> 'v) list \<Rightarrow> (string \<times> 'v) list" where
  "own_properties ps =
     sort_key (\<lambda>p. index_rank (fst p)) (filter (\<lambda>p. array_index (fst p) \<noteq> None) ps)
       @ filter (\<lambda>p. array_index (fst p) = None) ps"

definition Object_keys :: "(string \<times> 'v) list \<Rightarrow> string list" where
  "Object_keys ps = map fst (own_properties ps)"

definition Object_values :: "(string \<times> 'v) list \<Rightarrow> 'v list" where
  "Object_values ps = map snd (own_properties ps)"

text \<open>
  The \<open>appointments\<close> object of a referral is written under keys taken from the events, so
  its prototype link can change: assigning to \<open>__proto__\<close> runs the setter inherited from
  \<open>Object.prototype\<close> instead of creating an own property.
\<close>

datatype prototype = Object_prototype | Appointment_prototype Appointment | Null_prototype

record Appointments =
  own :: "(string \<times> Appointment option) list"
  proto :: prototype

text \<open>
  What \<open>state.appointments[apptId]\<close> evaluates to. \<open>JS_other\<close> stands for a value found on
  the prototype chain that is not an appointment: a function of \<open>Object.prototype\<close>,
  \<open>Object.prototype\<close> itself, or a string field of an appointment installed as prototype.
  All of these are truthy and none has a \<open>start_time\<close> property.
\<close>

datatype js_value = JS_undefined | JS_null | JS_appointment Appointment | JS_other

definition get_property :: "Appointments \<Rightarrow> string \<Rightarrow> js_value" where
  "get_property obj k =
     (case map_of (own obj) k of
        Some None \<Rightarrow> JS_null
      | Some (Some a) \<Rightarrow> JS_appointment a
      | None \<Rightarrow>
          (case proto obj of
             Null_prototype \<Rightarrow> JS_undefined
           | Object_prototype \<Rightarrow>
               if k \<in> set Object_prototype_keys then JS_other else JS_undefined
           | Appointment_prototype x \<Rightarrow>
               if k = ''__proto__'' then JS_appointment x
               else if k \<in> set [''appt_id'', ''start_time''] \<or> k \<in> set Object_prototype_keys
               then JS_other else JS_undefined))"

definition set_property :: "Appointments \<Rightarrow> string \<Rightarrow> Appointment option \<Rightarrow> Appointments" where
  "set_property obj k v =
     (if k = ''__proto__'' \<and> map_of (own obj) k = None \<and> proto obj \<noteq> Null_prototype
      then obj\<lparr>proto := (case v of None \<Rightarrow> Null_prototype | Some a \<Rightarrow> Appointment_prototype a)\<rparr>
      else obj\<lparr>own := AList.update k v (own obj)\<rparr>)"

definition truthy :: "js_value \<Rightarrow> bool" where
  "truthy v = (v \<noteq> JS_undefined \<and> v \<noteq> JS_null)"

definition start_time_of :: "js_value \<Rightarrow> string option" where
  "start_time_of v = (case v of JS_appointment a \<Rightarrow> Some (start_time a) | _ \<Rightarrow> None)"

record ReferralState =
  referral_id :: string
  status :: string
  active_appointment :: "Appointment option"
  metrics :: Metrics
  events :: "ReferralEvent list"
  appointments :: Appointments

datatype js_error = TypeError

section \<open>The reconciliation engine (domain/reconcile.ts)\<close>

definition TERMINAL_STATUSES :: "string list" where
  "TERMINAL_STATUSES = [''COMPLETED'', ''CANCELLED'']"

subsection \<open>Grouping by \<open>referral_id\<close>\<close>

text \<open>
  \<open>if (!eventsByReferral[id]) eventsByReferral[id] = []; eventsByReferral[id].push(event)\<close>.
  For an id that names an inherited property the lookup is truthy, no array is created,
  and \<open>.push\<close> is not a function: the call raises \<open>TypeError\<close>.
\<close>

definition push_event ::
  "(string \<times> ReferralEvent list) list \<Rightarrow> ReferralEvent
     \<Rightarrow> js_error + (string \<times> ReferralEvent list) list" where
  "push_event eventsByReferral event =
     (case map_of eventsByReferral (ReferralEvent.referral_id event) of
        Some evs \<Rightarrow>
          Inr (AList.update (ReferralEvent.referral_id event) (evs @ [event]) eventsByReferral)
      | None \<Rightarrow>
          if ReferralEvent.referral_id event \<in> set Object_prototype_keys then Inl TypeError
          else Inr (eventsByReferral @ [(ReferralEvent.referral_id event, [event])]))"

fun group_events ::
  "ReferralEvent list \<Rightarrow> (string \<times> ReferralEvent list) list
     \<Rightarrow> js_error + (string \<times> ReferralEvent list) list" where
  "group_events [] eventsByReferral = Inr eventsByReferral"
| "group_events (event # rest) eventsByReferral =
     (case push_event eventsByReferral event of
        Inl err \<Rightarrow> Inl err
      | Inr eventsByReferral' \<Rightarrow> group_events rest eventsByReferral')"

subsection \<open>Deduplication, sorting and gap counting\<close>

fun dedupe :: "ReferralEvent list \<Rightarrow> ReferralEvent list \<times> int \<Rightarrow> ReferralEvent list \<times> int" where
  "dedupe [] acc = acc"
| "dedupe (event # rest) (uniqueEvents, duplicateCount) =
     (if seq event \<in> set (map seq uniqueEvents)
      then dedupe rest (uniqueEvents, duplicateCount + 1)
      else dedupe rest (uniqueEvents @ [event], duplicateCount))"

text \<open>
  Arithmetic on numbers. A double has 53 significant bits: every integer of magnitude up
  to \<open>2^53\<close> is a double, and the exact result of an addition or subtraction is rounded
  to the nearest double, to the one with the even significand when it lies half way
  between two. \<open>ulp_exponent m\<close> is the number of low bits that \<open>m\<close> has beyond 53.
  Overflow to \<open>Infinity\<close> (magnitudes of \<open>2^1024\<close> and more) is not modelled.
\<close>

function ulp_exponent :: "nat \<Rightarrow> nat" where
  "ulp_exponent m = (if m < 9007199254740992 then 0 else Suc (ulp_exponent (m div 2)))"
  by pat_completeness auto
termination
  by (relation "measure (\<lambda>m. m)") auto

declare ulp_exponent.simps [simp del]

definition round_magnitude :: "nat \<Rightarrow> nat" where
  "round_magnitude m =
     (let e = ulp_exponent m; q = m div 2 ^ e; r = m mod 2 ^ e
      in if 2 * r > 2 ^ e \<or> (2 * r = 2 ^ e \<and> odd q) then (q + 1) * 2 ^ e else q * 2 ^ e)"

definition round_to_double :: "int \<Rightarrow> int" where
  "round_to_double n =
     (if n < 0 then - int (round_magnitude (nat (- n))) else int (round_magnitude (nat n)))"

text \<open>
  The loop over consecutive retained events: \<open>diff = next.seq - this.seq\<close>, and
  \<open>seqGaps += diff - 1\<close> when \<open>diff > 1\<close>, each operation on doubles. (In the comparator
  of the sort, \<open>a.seq - b.seq\<close>, only the sign of the difference matters, and rounding
  keeps it.)
\<close>

fun count_gaps :: "ReferralEvent list \<Rightarrow> int \<Rightarrow> int" where
  "count_gaps (a # b # rest) gaps =
     (let diff = round_to_double (seq b - seq a)
      in count_gaps (b # rest)
           (if diff > 1 then round_to_double (gaps + round_to_double (diff - 1)) else gaps))"
| "count_gaps _ gaps = gaps"

subsection \<open>Replay\<close>

definition status_logic :: "ReferralEvent \<Rightarrow> ReferralState \<times> bool \<Rightarrow> ReferralState \<times> bool" where
  "status_logic event = (\<lambda>(state, isTerminal).
     case Payload.status (payload event) of
       None \<Rightarrow> (state, isTerminal)
     | Some newStatus \<Rightarrow>
         if type event = ''STATUS_UPDATE'' \<and> newStatus \<noteq> [] then
           (let newIsTerminal = (newStatus \<in> set TERMINAL_STATUSES) in
            if isTerminal then
              (if newIsTerminal
               then (state\<lparr>status := newStatus,
                            metrics := (metrics state)\<lparr>terminalOverrides :=
                              terminalOverrides (metrics state) + 1\<rparr>\<rparr>, isTerminal)
               else (state, isTerminal))
            else (state\<lparr>status := newStatus\<rparr>, newIsTerminal))
         else (state, isTerminal))"

definition appointment_set_logic :: "ReferralEvent \<Rightarrow> ReferralState \<Rightarrow> ReferralState" where
  "appointment_set_logic event state =
     (case (Payload.appt_id (payload event), Payload.start_time (payload event)) of
        (Some apptId, Some startTime) \<Rightarrow>
          if type event = ''APPOINTMENT_SET'' \<and> apptId \<noteq> [] \<and> startTime \<noteq> [] then
            (let existing = get_property (appointments state) apptId;
                 state1 =
                   (if truthy existing \<and> start_time_of existing \<noteq> Some startTime
                    then state\<lparr>metrics := (metrics state)\<lparr>reschedules :=
                           reschedules (metrics state) + 1\<rparr>\<rparr>
                    else state)
             in state1\<lparr>appointments :=
                  set_property (appointments state1) apptId
                    (Some \<lparr>appt_id = apptId, start_time = startTime\<rparr>)\<rparr>)
          else state
      | _ \<Rightarrow> state)"

definition appointment_cancel_logic :: "ReferralEvent \<Rightarrow> ReferralState \<Rightarrow> ReferralState" where
  "appointment_cancel_logic event state =
     (case Payload.appt_id (payload event) of
        None \<Rightarrow> state
      | Some apptId \<Rightarrow>
          if type event = ''APPOINTMENT_CANCELLED'' \<and> apptId \<noteq> []
             \<and> truthy (get_property (appointments state) apptId)
          then state\<lparr>appointments := set_property (appointments state) apptId None,
                      metrics := (metrics state)\<lparr>cancelledAppts :=
                        cancelledAppts (metrics state) + 1\<rparr>\<rparr>
          else state)"

definition apply_event :: "ReferralState \<times> bool \<Rightarrow> ReferralEvent \<Rightarrow> ReferralState \<times> bool" where
  "apply_event s event =
     (let (state, isTerminal) = status_logic event s
      in (appointment_cancel_logic event (appointment_set_logic event state), isTerminal))"

subsection \<open>Choosing the active appointment\<close>

text \<open>
  \<open>parseISO\<close> belongs to the date-fns library and is a parameter of the model: it maps a
  string to the time value of the parsed date, \<open>None\<close> standing for an invalid date.
  \<open>compareAsc\<close> returns -1, 0 or 1, and \<open>NaN\<close> (here \<open>None\<close>) when a date is invalid;
  \<open>NaN < 0\<close> is false.
\<close>

definition compareAsc :: "int option \<Rightarrow> int option \<Rightarrow> int option" where
  "compareAsc dateLeft dateRight =
     (case (dateLeft, dateRight) of
        (Some l, Some r) \<Rightarrow> Some (if l - r < 0 then - 1 else if l - r > 0 then 1 else 0)
      | _ \<Rightarrow> None)"

definition less_than_zero :: "int option \<Rightarrow> bool" where
  "less_than_zero n = (case n of Some v \<Rightarrow> v < 0 | None \<Rightarrow> False)"

definition pick_best ::
  "(string \<Rightarrow> int option) \<Rightarrow> Appointment option \<Rightarrow> Appointment option \<Rightarrow> Appointment option" where
  "pick_best parseISO bestAppt appt =
     (case appt of
        None \<Rightarrow> bestAppt
      | Some a \<Rightarrow>
          (case bestAppt of
             None \<Rightarrow> Some a
           | Some b \<Rightarrow>
               if less_than_zero (compareAsc (parseISO (start_time a)) (parseISO (start_time b)))
               then Some a else Some b))"

definition select_active :: "(string \<Rightarrow> int option) \<Rightarrow> Appointments \<Rightarrow> Appointment option" where
  "select_active parseISO appts = foldl (pick_best parseISO) None (Object_values (own appts))"

subsection \<open>One referral, and the whole batch\<close>

definition initial_state :: "string \<Rightarrow> int \<Rightarrow> int \<Rightarrow> ReferralEvent list \<Rightarrow> ReferralState" where
  "initial_state referralId duplicateCount gaps sortedEvents =
     \<lparr>referral_id = referralId, status = ''CREATED'', active_appointment = None,
      metrics = \<lparr>duplicates = duplicateCount, seqGaps = gaps, terminalOverrides = 0,
                 reschedules = 0, cancelledAppts = 0\<rparr>,
      events = sortedEvents,
      appointments = \<lparr>own = [], proto = Object_prototype\<rparr>\<rparr>"

definition replay :: "ReferralState \<Rightarrow> ReferralEvent list \<Rightarrow> ReferralState \<times> bool" where
  "replay state sortedEvents = foldl apply_event (state, False) sortedEvents"

definition process_referral ::
  "(string \<Rightarrow> int option) \<Rightarrow> string \<Rightarrow> ReferralEvent list \<Rightarrow> ReferralState" where
  "process_referral parseISO referralId rawEvents =
     (let (uniqueEvents, duplicateCount) = dedupe rawEvents ([], 0);
          sortedEvents = sort_key seq uniqueEvents;
          gaps = count_gaps sortedEvents 0;
          (state, isTerminal) =
            replay (initial_state referralId duplicateCount gaps sortedEvents) sortedEvents
      in state\<lparr>active_appointment :=
           (if isTerminal then None else select_active parseISO (appointments state))\<rparr>)"

definition reconcile ::
  "(string \<Rightarrow> int option) \<Rightarrow> ReferralEvent list \<Rightarrow> js_error + (string \<times> ReferralState) list" where
  "reconcile parseISO evs =
     (case group_events evs [] of
        Inl err \<Rightarrow> Inl err
      | Inr eventsByReferral \<Rightarrow>
          Inr (map (\<lambda>(referralId, rawEvents).
                      (referralId, process_referral parseISO referralId rawEvents))
                 (own_properties eventsByReferral)))"


section \<open>The data-quality summary (domain/dataQuality.ts)\<close>



section \<open>The chunked batch writer (services/firestore.ts)\<close>

text \<open>
  A Firestore \<open>WriteBatch\<close> is the list of the operations added to it. \<open>promises\<close> holds,
  in call order, the batches on which \<open>commit()\<close> has been called: one promise each.
\<close>

datatype ('r, 'd) write_op = Set_op 'r 'd | Update_op 'r 'd | Delete_op 'r

definition MAX_BATCH_SIZE :: nat where
  "MAX_BATCH_SIZE = 400"

record ('r, 'd) ChunkedBatchWriter =
  batch :: "('r, 'd) write_op list"
  count :: nat
  promises :: "('r, 'd) write_op list list"

definition new_writer :: "('r, 'd) ChunkedBatchWriter" where
  "new_writer = \<lparr>batch = [], count = 0, promises = []\<rparr>"

definition rotate :: "('r, 'd) ChunkedBatchWriter \<Rightarrow> ('r, 'd) ChunkedBatchWriter" where
  "rotate w = w\<lparr>promises := promises w @ [batch w], batch := [], count := 0\<rparr>"

definition increment :: "('r, 'd) ChunkedBatchWriter \<Rightarrow> ('r, 'd) ChunkedBatchWriter" where
  "increment w =
     (let w' = w\<lparr>count := count w + 1\<rparr>
      in if count w' \<ge> MAX_BATCH_SIZE then rotate w' else w')"

definition writer_set ::
  "('r, 'd) ChunkedBatchWriter \<Rightarrow> 'r \<Rightarrow> 'd \<Rightarrow> ('r, 'd) ChunkedBatchWriter" where
  "writer_set w ref data = increment (w\<lparr>batch := batch w @ [Set_op ref data]\<rparr>)"




text \<open>
  A promise settles at some time, fulfilled or rejected. \<open>Promise.all\<close> is fulfilled once
  every promise is fulfilled (at the latest of their times) and rejected as soon as one
  of them is rejected (at the earliest rejection).
\<close>

datatype settlement = Fulfilled nat | Rejected nat

fun Promise_all :: "settlement list \<Rightarrow> settlement" where
  "Promise_all [] = Fulfilled 0"
| "Promise_all (Fulfilled t # ps) =
     (case Promise_all ps of
        Fulfilled u \<Rightarrow> Fulfilled (max t u)
      | Rejected u \<Rightarrow> Rejected u)"
| "Promise_all (Rejected t # ps) =
     (case Promise_all ps of
        Fulfilled u \<Rightarrow> Rejected t
      | Rejected u \<Rightarrow> Rejected (min t u))"

text \<open>
  \<open>commit()\<close>: the current batch is committed if it holds an operation, and the call
  awaits \<open>Promise.all(this.promises)\<close>. How the commit of the \<open>i\<close>-th batch settles is
  decided by Firestore and is the parameter \<open>settle\<close>.
\<close>

definition commit ::
  "(nat \<Rightarrow> settlement) \<Rightarrow> ('r, 'd) ChunkedBatchWriter
     \<Rightarrow> ('r, 'd) ChunkedBatchWriter \<times> settlement" where
  "commit settle w =
     (let w' = (if count w > 0 then w\<lparr>promises := promises w @ [batch w]\<rparr> else w)
      in (w', Promise_all (map settle [0..<length (promises w')])))"

section \<open>The authentication gate (services/authz.ts)\<close>

text \<open>
  Token verification (\<open>auth.verifyIdToken\<close>) and the read of the user document belong to
  Firebase and are parameters: each either throws (\<open>Inl\<close> with the message of the error)
  or returns. A user document has data or not (\<open>userDoc.data()\<close> may be undefined), and
  its data has a \<open>role\<close> field or not.
\<close>

record DecodedIdToken =
  uid :: string
  email :: "string option"

record User =
  uid :: string
  email :: "string option"
  role :: string

text \<open>
  The parsed JSON body of an upload request, as far as the upload handler looks at it:
  an array, an object whose \<open>events\<close> property is an array, or anything else. The elements
  are event objects whose fields may hold any strings (nothing has checked them).
\<close>

datatype request_body =
  Body_array "ReferralEvent list" | Body_events "ReferralEvent list" | Body_other

record Request =
  authorization :: "string option"
  user :: "User option"
  body :: request_body

datatype response = Response nat string

type_synonym token_verifier = "string \<Rightarrow> string + DecodedIdToken"

type_synonym role_lookup = "string \<Rightarrow> string + string option option"

definition startsWith :: "string \<Rightarrow> string \<Rightarrow> bool" where
  "startsWith s p = (take (length p) s = p)"

text \<open>The text of \<open>s\<close> before the first occurrence of \<open>sep\<close> (all of \<open>s\<close> if there is none).\<close>

fun before_separator :: "string \<Rightarrow> string \<Rightarrow> string" where
  "before_separator sep [] = []"
| "before_separator sep (c # cs) =
     (if startsWith (c # cs) sep then [] else c # before_separator sep cs)"

text \<open>
  \<open>authHeader.split("Bearer ")[1]\<close> for a header that starts with \<open>"Bearer "\<close>: the first
  piece is empty and the second runs from the end of the prefix to the next occurrence
  of the separator.
\<close>

definition bearer_token :: "string \<Rightarrow> string" where
  "bearer_token authHeader =
     before_separator ''Bearer '' (drop (length ''Bearer '') authHeader)"

definition authenticate :: "token_verifier \<Rightarrow> role_lookup \<Rightarrow> Request \<Rightarrow> response + Request" where
  "authenticate verifyIdToken getUserData req =
     (case authorization req of
        None \<Rightarrow> Inl (Response 401 ''Unauthorized: Missing Bearer Token'')
      | Some authHeader \<Rightarrow>
          if \<not> startsWith authHeader ''Bearer ''
          then Inl (Response 401 ''Unauthorized: Missing Bearer Token'')
          else
            (case verifyIdToken (bearer_token authHeader) of
               Inl message \<Rightarrow> Inl (Response 401 (''Unauthorized: '' @ message))
             | Inr decodedToken \<Rightarrow>
                 (case getUserData (DecodedIdToken.uid decodedToken) of
                    Inl message \<Rightarrow> Inl (Response 401 (''Unauthorized: '' @ message))
                  | Inr userData \<Rightarrow>
                      Inr (req\<lparr>user := Some
                        \<lparr>uid = DecodedIdToken.uid decodedToken,
                         email = DecodedIdToken.email decodedToken,
                         role = (case userData of
                                   Some (Some r) \<Rightarrow> if r \<noteq> [] then r else ''viewer''
                                 | _ \<Rightarrow> ''viewer'')\<rparr>\<rparr>))))"

definition requireAdmin :: "Request \<Rightarrow> response + Request" where
  "requireAdmin req =
     (case user req of
        None \<Rightarrow> Inl (Response 403 ''Forbidden: Admins Only'')
      | Some u \<Rightarrow>
          if role u \<noteq> ''admin'' then Inl (Response 403 ''Forbidden: Admins Only'')
          else Inr req)"

text \<open>
  A route is its chain of middleware followed by the handler. The outcome records
  whether the handler ran: \<open>Replied\<close> is a response sent by a middleware, which ends the
  chain; \<open>Handled\<close> carries what the handler did with the request.
\<close>

datatype 'a outcome = Replied response | Handled 'a

text \<open>\<open>GET /referrals\<close>, \<open>GET /referrals/:id\<close> and \<open>GET /auth/me\<close>: \<open>authenticate\<close>, then the handler.\<close>

definition protected_route ::
  "token_verifier \<Rightarrow> role_lookup \<Rightarrow> (Request \<Rightarrow> 'a) \<Rightarrow> Request \<Rightarrow> 'a outcome" where
  "protected_route verifyIdToken getUserData handler req =
     (case authenticate verifyIdToken getUserData req of
        Inl res \<Rightarrow> Replied res
      | Inr req' \<Rightarrow> Handled (handler req'))"

text \<open>\<open>POST /uploads\<close>: \<open>authenticate\<close>, \<open>requireAdmin\<close>, then the handler.\<close>

definition admin_route ::
  "token_verifier \<Rightarrow> role_lookup \<Rightarrow> (Request \<Rightarrow> 'a) \<Rightarrow> Request \<Rightarrow> 'a outcome" where
  "admin_route verifyIdToken getUserData handler req =
     (case authenticate verifyIdToken getUserData req of
        Inl res \<Rightarrow> Replied res
      | Inr req' \<Rightarrow>
          (case requireAdmin req' of
             Inl res \<Rightarrow> Replied res
           | Inr req'' \<Rightarrow> Handled (handler req'')))"

definition status_code :: "response \<Rightarrow> nat" where
  "status_code res = (case res of Response code message \<Rightarrow> code)"

section \<open>Derived metrics (domain/deriveMetrics.ts)\<close>

record DerivedMetrics =
  total :: int
  completed :: int
  cancelled :: int
  inProgress :: int
  scheduled :: int
  noAppointment :: int

definition tally :: "DerivedMetrics \<Rightarrow> ReferralState \<Rightarrow> DerivedMetrics" where
  "tally m r =
     (if ReferralState.status r = ''COMPLETED'' then m\<lparr>completed := completed m + 1\<rparr>
      else if ReferralState.status r = ''CANCELLED'' then m\<lparr>cancelled := cancelled m + 1\<rparr>
      else
        (let m' = m\<lparr>inProgress := inProgress m + 1\<rparr>
         in if active_appointment r \<noteq> None then m'\<lparr>scheduled := scheduled m' + 1\<rparr>
            else m'\<lparr>noAppointment := noAppointment m' + 1\<rparr>))"

definition getDerivedMetrics :: "(string \<times> ReferralState) list \<Rightarrow> DerivedMetrics" where
  "getDerivedMetrics reconciledMap =
     (let referrals = Object_values reconciledMap
      in foldl tally
           \<lparr>total = int (length referrals), completed = 0, cancelled = 0, inProgress = 0,
            scheduled = 0, noAppointment = 0\<rparr>
           referrals)"

section \<open>The upload endpoint (api/uploads.ts)\<close>

text \<open>
  \<open>String(n)\<close> for an integer \<open>n\<close>, as the template literal of the event id needs it:
  the decimal digits. (From \<open>10^21\<close> on JavaScript prints a number in exponent notation,
  which is not modelled.)
\<close>

function decimal :: "nat \<Rightarrow> string" where
  "decimal n =
     (if n < 10 then [''0123456789'' ! n] else decimal (n div 10) @ [''0123456789'' ! (n mod 10)])"
  by pat_completeness auto
termination
  by (relation "measure (\<lambda>n. n)") auto

declare decimal.simps [simp del]

definition Number_toString :: "int \<Rightarrow> string" where
  "Number_toString n = (if n < 0 then ''-'' @ decimal (nat (- n)) else decimal (nat n))"

text \<open>
  The documents written by an upload, and their references (the path of collection and
  document names). The checks that the Firestore SDK makes on a document path are not
  modelled.
\<close>

datatype document =
    Upload_document string string int int string DerivedMetrics
  | Metrics_document DerivedMetrics string string
  | Event_document ReferralEvent string string
  | Referral_document ReferralState string string

definition upload_ref :: "string \<Rightarrow> string list" where
  "upload_ref uploadId = [''organizations'', ''default'', ''uploads'', uploadId]"

definition metrics_ref :: "string \<Rightarrow> string list" where
  "metrics_ref uploadId = [''organizations'', ''default'', ''metrics'', uploadId]"

definition event_ref :: "ReferralEvent \<Rightarrow> string list" where
  "event_ref event =
     [''organizations'', ''default'', ''referrals'', ReferralEvent.referral_id event, ''events'',
      ReferralEvent.referral_id event @ ''_'' @ Number_toString (seq event)]"

definition referral_ref :: "string \<Rightarrow> string list" where
  "referral_ref refId = [''organizations'', ''default'', ''referrals'', refId]"

datatype upload_reply =
    Invalid_input
  | Internal_server_error
  | Upload_ok string int int DerivedMetrics

definition http_status :: "upload_reply \<Rightarrow> nat" where
  "http_status reply =
     (case reply of
        Invalid_input \<Rightarrow> 400
      | Internal_server_error \<Rightarrow> 500
      | Upload_ok uploadId processed referrals m \<Rightarrow> 200)"

text \<open>Step 1 of the handler: a bare array or the \<open>events\<close> array of an object.\<close>

definition input_events :: "request_body \<Rightarrow> ReferralEvent list option" where
  "input_events b =
     (case b of
        Body_array evs \<Rightarrow> Some evs
      | Body_events evs \<Rightarrow> Some evs
      | Body_other \<Rightarrow> None)"

text \<open>
  The handler. \<open>uploadId\<close> (from \<open>nanoid()\<close>) and \<open>timestamp\<close> (from the clock) are
  parameters, as is the settlement of each batch commit. The events are cast, not
  validated, and go to \<open>reconcile\<close>; an exception anywhere is answered 500. The result is
  the reply together with the batches that were handed to Firestore for commit.
\<close>

definition upload_handler ::
  "(string \<Rightarrow> int option) \<Rightarrow> (nat \<Rightarrow> settlement) \<Rightarrow> string \<Rightarrow> string \<Rightarrow> Request
     \<Rightarrow> upload_reply \<times> (string list, document) write_op list list" where
  "upload_handler parseISO settle uploadId timestamp req =
     (case input_events (body req) of
        None \<Rightarrow> (Invalid_input, [])
      | Some rawEvents \<Rightarrow>
          (case reconcile parseISO rawEvents of
             Inl err \<Rightarrow> (Internal_server_error, [])
           | Inr reconciledMap \<Rightarrow>
               (let m = getDerivedMetrics reconciledMap;
                    w1 = writer_set new_writer (upload_ref uploadId)
                           (Upload_document uploadId timestamp (int (length rawEvents))
                              (int (length (Object_keys reconciledMap))) ''COMPLETED'' m);
                    w2 = writer_set w1 (metrics_ref uploadId)
                           (Metrics_document m timestamp uploadId);
                    w3 = foldl (\<lambda>w event. writer_set w (event_ref event)
                                  (Event_document event uploadId timestamp)) w2 rawEvents;
                    w4 = foldl (\<lambda>w (refId, state). writer_set w (referral_ref refId)
                                  (Referral_document state timestamp uploadId)) w3
                           (own_properties reconciledMap);
                    (w5, result) = commit settle w4
                in (case result of
                      Fulfilled t \<Rightarrow>
                        (Upload_ok uploadId (int (length rawEvents))
                           (int (length (Object_keys reconciledMap))) m, promises w5)
                    | Rejected t \<Rightarrow> (Internal_server_error, promises w5)))))"

text \<open>\<open>uploadRouter.post("/", authenticate, requireAdmin, handler)\<close>.\<close>

definition uploads_route ::
  "token_verifier \<Rightarrow> role_lookup \<Rightarrow> (string \<Rightarrow> int option) \<Rightarrow> (nat \<Rightarrow> settlement) \<Rightarrow> string
     \<Rightarrow> string \<Rightarrow> Request
     \<Rightarrow> (upload_reply \<times> (string list, document) write_op list list) outcome" where
  "uploads_route verifyIdToken getUserData parseISO settle uploadId timestamp req =
     admin_route verifyIdToken getUserData (upload_handler parseISO settle uploadId timestamp) req"

section \<open>Example data\<close>

text \<open>Concrete events and a concrete date parser, used to instantiate the theorems below.\<close>

definition event :: "string \<Rightarrow> int \<Rightarrow> string \<Rightarrow> Payload \<Rightarrow> ReferralEvent" where
  "event r n t p = \<lparr>ReferralEvent.referral_id = r, seq = n, type = t, payload = p\<rparr>"

definition status_payload :: "string \<Rightarrow> Payload" where
  "status_payload s = \<lparr>Payload.status = Some s, appt_id = None, start_time = None\<rparr>"

definition appointment_payload :: "string \<Rightarrow> string \<Rightarrow> Payload" where
  "appointment_payload a t = \<lparr>Payload.status = None, appt_id = Some a, start_time = Some t\<rparr>"

definition empty_payload :: Payload where
  "empty_payload = \<lparr>Payload.status = None, appt_id = None, start_time = None\<rparr>"

text \<open>The time values (milliseconds since the epoch) of the timestamps used in the examples.\<close>

definition example_parseISO :: "string \<Rightarrow> int option" where
  "example_parseISO =
     map_of [(''2025-03-01T09:00:00Z'', 1740819600000), (''2025-03-02T09:00:00Z'', 1740906000000),
             (''2025-05-05T09:00:00Z'', 1746435600000), (''2025-05-10T09:00:00Z'', 1746867600000)]"

definition R5_cancelled :: ReferralEvent where
  "R5_cancelled = event ''R5'' 1 ''STATUS_UPDATE'' (status_payload ''CANCELLED'')"

definition R5_sent :: ReferralEvent where
  "R5_sent = event ''R5'' 2 ''STATUS_UPDATE'' (status_payload ''SENT'')"

definition R5_completed :: ReferralEvent where
  "R5_completed = event ''R5'' 3 ''STATUS_UPDATE'' (status_payload ''COMPLETED'')"

definition R2_events :: "ReferralEvent list" where
  "R2_events =
     [event ''R2'' 1 ''STATUS_UPDATE'' (status_payload ''SENT''),
      event ''R2'' 1 ''STATUS_UPDATE'' (status_payload ''SENT''),
      event ''R2'' 3 ''STATUS_UPDATE'' (status_payload ''ACKNOWLEDGED'')]"

definition R1_sent :: ReferralEvent where
  "R1_sent = event ''R1'' 1 ''STATUS_UPDATE'' (status_payload ''SENT'')"

text \<open>Two events with the same \<open>(referral_id, seq)\<close> and the same payload, of different types.\<close>

definition R1_set_A :: ReferralEvent where
  "R1_set_A = event ''R1'' 1 ''APPOINTMENT_SET'' (appointment_payload ''A'' ''2025-05-05T09:00:00Z'')"

definition R1_cancel_A :: ReferralEvent where
  "R1_cancel_A =
     event ''R1'' 1 ''APPOINTMENT_CANCELLED'' (appointment_payload ''A'' ''2025-05-05T09:00:00Z'')"

definition R2_events_reordered :: "ReferralEvent list" where
  "R2_events_reordered =
     [event ''R2'' 3 ''STATUS_UPDATE'' (status_payload ''ACKNOWLEDGED''),
      event ''R2'' 1 ''STATUS_UPDATE'' (status_payload ''SENT''),
      event ''R2'' 1 ''STATUS_UPDATE'' (status_payload ''SENT'')]"

definition R4_events :: "ReferralEvent list" where
  "R4_events =
     [event ''R4'' 1 ''STATUS_UPDATE'' (status_payload ''SCHEDULED''),
      event ''R4'' 2 ''APPOINTMENT_SET'' (appointment_payload ''B'' ''2025-05-10T09:00:00Z''),
      event ''R4'' 3 ''APPOINTMENT_SET'' (appointment_payload ''A'' ''2025-05-05T09:00:00Z'')]"

text \<open>Two appointments with the same start time, the one with the larger id set first.\<close>

definition R4_tie_events :: "ReferralEvent list" where
  "R4_tie_events =
     [event ''R4'' 1 ''STATUS_UPDATE'' (status_payload ''SCHEDULED''),
      event ''R4'' 2 ''APPOINTMENT_SET'' (appointment_payload ''B'' ''2025-05-10T09:00:00Z''),
      event ''R4'' 3 ''APPOINTMENT_SET'' (appointment_payload ''A'' ''2025-05-10T09:00:00Z'')]"



text \<open>A verifier that accepts one token, and user documents: an admin, a user without role.\<close>

definition example_verifier :: token_verifier where
  "example_verifier token =
     (if token = ''good-token'' then Inr \<lparr>DecodedIdToken.uid = ''u1'', email = None\<rparr>
      else if token = ''admin-token'' then Inr \<lparr>DecodedIdToken.uid = ''u2'', email = None\<rparr>
      else Inl ''Decoding Firebase ID token failed'')"

definition example_roles :: role_lookup where
  "example_roles subject = (if subject = ''u2'' then Inr (Some (Some ''admin'')) else Inr (Some None))"

definition request_with :: "string option \<Rightarrow> Request" where
  "request_with h = \<lparr>authorization = h, user = None, body = Body_other\<rparr>"

text \<open>An event of an unknown type, and an upload of it by an admin.\<close>

definition bogus_event :: ReferralEvent where
  "bogus_event = event ''R1'' 1 ''BOGUS'' empty_payload"

definition bogus_upload :: Request where
  "bogus_upload =
     \<lparr>authorization = Some ''Bearer admin-token'', user = None, body = Body_array [bogus_event]\<rparr>"

text \<open>An ordinary event for a referral whose id is the name of an inherited property.\<close>

definition constructor_event :: ReferralEvent where
  "constructor_event = event ''constructor'' 1 ''STATUS_UPDATE'' (status_payload ''SENT'')"

text \<open>Three events whose sequence numbers are doubles above \<open>2^53\<close> (after the first).\<close>

definition R9_events :: "ReferralEvent list" where
  "R9_events =
     [event ''R9'' 0 ''STATUS_UPDATE'' (status_payload ''SENT''),
      event ''R9'' 9007199254740994 ''STATUS_UPDATE'' (status_payload ''ACKNOWLEDGED''),
      event ''R9'' 9007199254740996 ''STATUS_UPDATE'' (status_payload ''SCHEDULED'')]"


section \<open>Specification-side notions\<close>

text \<open>
  The gap sum in the words of the specification: the sum, over consecutive pairs of the
  retained sequence numbers \<open>s\<close>, of \<open>max(0, s[i+1] - s[i] - 1)\<close>.
\<close>

definition gap_sum :: "int list \<Rightarrow> int" where
  "gap_sum s = (\<Sum>i<length s - 1. max 0 (s ! (i + 1) - s ! i - 1))"

text \<open>
  \<open>Number.MAX_SAFE_INTEGER\<close>, \<open>2^53 - 1\<close>: up to it every integer is a double and
  integer arithmetic on doubles is exact.
\<close>

definition MAX_SAFE_INTEGER :: int where
  "MAX_SAFE_INTEGER = 9007199254740991"

text \<open>A referral state with its \<open>duplicates\<close> counter replaced, every other field kept.\<close>

definition with_duplicates :: "int \<Rightarrow> ReferralState \<Rightarrow> ReferralState" where
  "with_duplicates d st = st\<lparr>metrics := (metrics st)\<lparr>duplicates := d\<rparr>\<rparr>"

text \<open>
  The result of \<open>reconcile\<close> read as a \<open>Record\<close>: the mapping from \<open>referral_id\<close> to state
  that the returned object represents (two objects with the same properties are equal
  as records whatever the order in which the keys were inserted).
\<close>

definition as_record ::
  "js_error + (string \<times> ReferralState) list \<Rightarrow> js_error + (string \<rightharpoonup> ReferralState)" where
  "as_record res = (case res of Inl err \<Rightarrow> Inl err | Inr m \<Rightarrow> Inr (map_of m))"

text \<open>
  The non-cancelled appointments of a referral, in the order in which \<open>Object.values\<close>
  enumerates the \<open>appointments\<close> object, and the comparison of start times that the code
  makes: \<open>earlier a b\<close> holds when both start times parse and that of \<open>a\<close> is strictly
  before that of \<open>b\<close>.
\<close>

definition non_cancelled :: "Appointments \<Rightarrow> Appointment list" where
  "non_cancelled appts = List.map_filter id (Object_values (own appts))"

definition earlier :: "(string \<Rightarrow> int option) \<Rightarrow> Appointment \<Rightarrow> Appointment \<Rightarrow> bool" where
  "earlier parseISO a b =
     less_than_zero (compareAsc (parseISO (start_time a)) (parseISO (start_time b)))"


text \<open>
  The outcome "the response has status \<open>code\<close> and the handler did not run", and the role
  that \<open>authenticate\<close> attaches to the request.
\<close>

definition rejected_with :: "nat \<Rightarrow> 'a outcome \<Rightarrow> bool" where
  "rejected_with code out =
     (case out of Replied res \<Rightarrow> status_code res = code | Handled x \<Rightarrow> False)"

definition resolved_role :: "response + Request \<Rightarrow> string option" where
  "resolved_role r = (case r of Inl res \<Rightarrow> None | Inr req \<Rightarrow> map_option role (user req))"

text \<open>
  An event whose payload lacks a field that its type needs: a STATUS_UPDATE without
  \<open>status\<close>, an APPOINTMENT_SET without \<open>appt_id\<close> or \<open>start_time\<close>, an
  APPOINTMENT_CANCELLED without \<open>appt_id\<close>.
\<close>

definition lacks_needed_fields :: "ReferralEvent \<Rightarrow> bool" where
  "lacks_needed_fields e =
     ((type e = ''STATUS_UPDATE'' \<and> Payload.status (payload e) = None) \<or>
      (type e = ''APPOINTMENT_SET'' \<and>
         (Payload.appt_id (payload e) = None \<or> Payload.start_time (payload e) = None)) \<or>
      (type e = ''APPOINTMENT_CANCELLED'' \<and> Payload.appt_id (payload e) = None))"


section \<open>Properties of the replay\<close>

lemmas event_defs = event_def status_payload_def appointment_payload_def empty_payload_def

lemmas replay_defs = replay_def apply_event_def status_logic_def appointment_set_logic_def
  appointment_cancel_logic_def initial_state_def TERMINAL_STATUSES_def get_property_def
  set_property_def truthy_def start_time_of_def Object_prototype_keys_def

lemma apply_event_status:
  "apply_event (st, t) e = (st', t') \<Longrightarrow>
     ReferralState.status st' = ReferralState.status (fst (status_logic e (st, t)))
       \<and> t' = snd (status_logic e (st, t))"
  by (auto simp: apply_event_def appointment_set_logic_def appointment_cancel_logic_def Let_def
      split: prod.splits option.splits if_splits)

lemma status_logic_inv:
  "(t \<longleftrightarrow> ReferralState.status st \<in> set TERMINAL_STATUSES) \<Longrightarrow>
   status_logic e (st, t) = (st', t') \<Longrightarrow>
   (t' \<longleftrightarrow> ReferralState.status st' \<in> set TERMINAL_STATUSES)"
  by (auto simp: status_logic_def Let_def split: option.splits if_splits)

lemma apply_event_inv:
  assumes "t \<longleftrightarrow> ReferralState.status st \<in> set TERMINAL_STATUSES"
    and "apply_event (st, t) e = (st', t')"
  shows "t' \<longleftrightarrow> ReferralState.status st' \<in> set TERMINAL_STATUSES"
proof -
  obtain s1 t1 where s1: "status_logic e (st, t) = (s1, t1)"
    by (cases "status_logic e (st, t)")
  from apply_event_status[OF assms(2)] s1
  have "ReferralState.status st' = ReferralState.status s1" "t' = t1" by auto
  with status_logic_inv[OF assms(1) s1] show ?thesis by simp
qed

lemma foldl_apply_event_inv:
  "(t \<longleftrightarrow> ReferralState.status st \<in> set TERMINAL_STATUSES) \<Longrightarrow>
   foldl apply_event (st, t) xs = (st', t') \<Longrightarrow>
   (t' \<longleftrightarrow> ReferralState.status st' \<in> set TERMINAL_STATUSES)"
proof (induction xs arbitrary: st t)
  case Nil
  then show ?case by auto
next
  case (Cons x xs)
  obtain s1 t1 where s1: "apply_event (st, t) x = (s1, t1)"
    by (cases "apply_event (st, t) x")
  from apply_event_inv[OF Cons.prems(1) s1]
  have "t1 \<longleftrightarrow> ReferralState.status s1 \<in> set TERMINAL_STATUSES" .
  from Cons.IH[OF this] Cons.prems(2) s1 show ?case by simp
qed

lemma foldl_terminal_stays:
  "t \<Longrightarrow> foldl apply_event (st, t) xs = (st', t') \<Longrightarrow> t'"
proof (induction xs arbitrary: st t)
  case Nil
  then show ?case by simp
next
  case (Cons x xs)
  obtain s1 t1 where s1: "apply_event (st, t) x = (s1, t1)"
    by (cases "apply_event (st, t) x")
  have "t1" using s1 Cons.prems(1)
    by (auto simp: apply_event_def status_logic_def Let_def
        split: prod.splits option.splits if_splits)
  from Cons.IH[OF this] Cons.prems(2) s1 show ?case by simp
qed

lemma apply_status_update_terminal:
  assumes "type e = ''STATUS_UPDATE''" "Payload.status (payload e) = Some s"
  shows "apply_event (st, True) e =
     (if s \<in> set TERMINAL_STATUSES
      then (st\<lparr>ReferralState.status := s,
                metrics := (metrics st)\<lparr>terminalOverrides :=
                  terminalOverrides (metrics st) + 1\<rparr>\<rparr>, True)
      else (st, True))"
  using assms
  by (auto simp: apply_event_def status_logic_def appointment_set_logic_def
      appointment_cancel_logic_def Let_def TERMINAL_STATUSES_def
      split: prod.splits option.splits if_splits)


section \<open>Grouping and the shape of the result\<close>

lemma push_event_Inr:
  assumes "distinct (map fst g)" "push_event g e = Inr g'"
  shows "distinct (map fst g') \<and> fst ` set g' = insert (ReferralEvent.referral_id e) (fst ` set g) \<and>
         map_of g' = (map_of g)(ReferralEvent.referral_id e \<mapsto>
           (case map_of g (ReferralEvent.referral_id e) of None \<Rightarrow> [] | Some l \<Rightarrow> l) @ [e])"
proof (cases "map_of g (ReferralEvent.referral_id e)")
  case None
  then have notin: "ReferralEvent.referral_id e \<notin> fst ` set g" by (simp add: map_of_eq_None_iff)
  from None assms(2) have g': "g' = g @ [(ReferralEvent.referral_id e, [e])]"
    by (auto simp: push_event_def split: if_splits)
  have "map_of g' = (map_of g)(ReferralEvent.referral_id e \<mapsto> [e])"
    unfolding g' by (rule ext) (auto simp: map_add_def None split: option.splits)
  with assms(1) notin None show ?thesis by (auto simp: g')
next
  case (Some evs)
  with assms(2) have g': "g' = AList.update (ReferralEvent.referral_id e) (evs @ [e]) g"
    by (auto simp: push_event_def)
  from Some have "ReferralEvent.referral_id e \<in> fst ` set g"
    by (metis map_of_eq_None_iff option.distinct(1))
  with assms(1) Some show ?thesis
    by (auto simp: g' distinct_update update_conv' dom_update insert_absorb image_iff)
qed

lemma push_event_Inl:
  "push_event g e = Inl err \<longleftrightarrow>
     ReferralEvent.referral_id e \<in> set Object_prototype_keys \<and>
     ReferralEvent.referral_id e \<notin> fst ` set g"
proof (cases "map_of g (ReferralEvent.referral_id e)")
  case None
  then have "ReferralEvent.referral_id e \<notin> fst ` set g" by (simp add: map_of_eq_None_iff)
  with None show ?thesis by (cases err) (auto simp: push_event_def)
next
  case (Some evs)
  then have "ReferralEvent.referral_id e \<in> fst ` set g"
    by (metis map_of_eq_None_iff option.distinct(1))
  with Some show ?thesis by (auto simp: push_event_def)
qed

lemma group_events_Inl:
  "distinct (map fst g) \<Longrightarrow>
   group_events es g = Inl err \<longleftrightarrow>
     (\<exists>e\<in>set es. ReferralEvent.referral_id e \<in> set Object_prototype_keys \<and>
        ReferralEvent.referral_id e \<notin> fst ` set g)"
proof (induction es arbitrary: g)
  case Nil
  then show ?case by simp
next
  case (Cons e es)
  show ?case
  proof (cases "push_event g e")
    case (Inl a)
    then show ?thesis using push_event_Inl[of g e a] by (cases a; cases err) auto
  next
    case (Inr g1)
    from push_event_Inr[OF Cons.prems Inr] have d: "distinct (map fst g1)"
      and k: "fst ` set g1 = insert (ReferralEvent.referral_id e) (fst ` set g)" by auto
    have nofail: "\<not> (ReferralEvent.referral_id e \<in> set Object_prototype_keys \<and>
        ReferralEvent.referral_id e \<notin> fst ` set g)"
      using push_event_Inl[of g e TypeError] Inr by auto
    have "group_events (e # es) g = Inl err \<longleftrightarrow> group_events es g1 = Inl err"
      using Inr by simp
    also have "\<dots> \<longleftrightarrow> (\<exists>x\<in>set es. ReferralEvent.referral_id x \<in> set Object_prototype_keys \<and>
        ReferralEvent.referral_id x \<notin> fst ` set g1)"
      by (rule Cons.IH[OF d])
    also have "\<dots> \<longleftrightarrow> (\<exists>x\<in>set (e # es). ReferralEvent.referral_id x \<in> set Object_prototype_keys \<and>
        ReferralEvent.referral_id x \<notin> fst ` set g)"
      unfolding k using nofail by (metis insert_iff list.set_intros(2) set_ConsD)
    finally show ?thesis .
  qed
qed

lemma group_events_Inr:
  "distinct (map fst g) \<Longrightarrow> group_events es g = Inr g' \<Longrightarrow>
   distinct (map fst g') \<and>
   (\<forall>r. map_of g' r =
      (if r \<in> fst ` set g \<or> r \<in> ReferralEvent.referral_id ` set es
       then Some ((case map_of g r of None \<Rightarrow> [] | Some l \<Rightarrow> l)
                  @ filter (\<lambda>e. ReferralEvent.referral_id e = r) es)
       else None))"
proof (induction es arbitrary: g)
  case Nil
  then show ?case by (auto simp: map_of_eq_None_iff image_iff split: option.splits)
next
  case (Cons e es)
  from Cons.prems(2) obtain g1 where g1: "push_event g e = Inr g1"
    and rest: "group_events es g1 = Inr g'"
    by (auto split: sum.splits)
  from push_event_Inr[OF Cons.prems(1) g1] have d: "distinct (map fst g1)"
      and k: "fst ` set g1 = insert (ReferralEvent.referral_id e) (fst ` set g)"
      and m: "map_of g1 = (map_of g)(ReferralEvent.referral_id e \<mapsto>
           (case map_of g (ReferralEvent.referral_id e) of None \<Rightarrow> [] | Some l \<Rightarrow> l) @ [e])"
    by auto
  from Cons.IH[OF d rest] have d': "distinct (map fst g')" and
    IH: "\<And>r. map_of g' r =
      (if r \<in> fst ` set g1 \<or> r \<in> ReferralEvent.referral_id ` set es
       then Some ((case map_of g1 r of None \<Rightarrow> [] | Some l \<Rightarrow> l)
                  @ filter (\<lambda>e. ReferralEvent.referral_id e = r) es)
       else None)" by auto
  have "map_of g' r =
      (if r \<in> fst ` set g \<or> r \<in> ReferralEvent.referral_id ` set (e # es)
       then Some ((case map_of g r of None \<Rightarrow> [] | Some l \<Rightarrow> l)
                  @ filter (\<lambda>e. ReferralEvent.referral_id e = r) (e # es))
       else None)" for r
    unfolding IH[of r] k m by (auto split: option.splits)
  with d' show ?case by blast
qed

lemma mset_own_properties: "mset (own_properties ps) = mset ps"
  by (simp add: own_properties_def)

lemma set_own_properties: "set (own_properties ps) = set ps"
  by (metis mset_own_properties set_mset_mset)

lemma distinct_own_properties:
  "distinct (map fst ps) \<Longrightarrow> distinct (map fst (own_properties ps))"
  by (metis mset_own_properties mset_map mset_eq_imp_distinct_iff)

lemma reconcile_Inl:
  "reconcile P E = Inl err \<longleftrightarrow>
     (\<exists>e\<in>set E. ReferralEvent.referral_id e \<in> set Object_prototype_keys)"
  using group_events_Inl[of "[]" E err]
  by (auto simp: reconcile_def split: sum.splits)

lemma reconcile_Inr:
  assumes "reconcile P E = Inr m"
  shows "distinct (map fst m)"
    and "map_of m r = (if r \<in> ReferralEvent.referral_id ` set E
           then Some (process_referral P r (filter (\<lambda>e. ReferralEvent.referral_id e = r) E))
           else None)"
proof -
  let ?raw = "filter (\<lambda>e. ReferralEvent.referral_id e = r) E"
  from assms obtain g where g: "group_events E [] = Inr g"
    and m: "m = map (\<lambda>(referralId, rawEvents).
                      (referralId, process_referral P referralId rawEvents)) (own_properties g)"
    by (auto simp: reconcile_def split: sum.splits)
  from group_events_Inr[OF _ g] have d: "distinct (map fst g)"
    and look: "\<And>r. map_of g r = (if r \<in> ReferralEvent.referral_id ` set E
        then Some (filter (\<lambda>e. ReferralEvent.referral_id e = r) E) else None)"
    by auto
  have fstm: "map fst m = map fst (own_properties g)"
    unfolding m by (induction "own_properties g") auto
  show dm: "distinct (map fst m)" using distinct_own_properties[OF d] fstm by simp
  have mem: "(r, st) \<in> set m \<longleftrightarrow> (\<exists>raw. (r, raw) \<in> set g \<and> st = process_referral P r raw)"
    for st
    unfolding m by (auto simp: set_own_properties)
  show "map_of m r = (if r \<in> ReferralEvent.referral_id ` set E
           then Some (process_referral P r ?raw) else None)"
  proof (cases "r \<in> ReferralEvent.referral_id ` set E")
    case True
    with look have "map_of g r = Some ?raw" by simp
    then have "(r, ?raw) \<in> set g" by (rule map_of_SomeD)
    then have "(r, process_referral P r ?raw) \<in> set m" using mem by blast
    with dm True show ?thesis by simp
  next
    case False
    with look have "map_of g r = None" by simp
    then have "r \<notin> fst ` set g" by (simp add: map_of_eq_None_iff)
    then have "r \<notin> fst ` set m" using fstm set_own_properties[of g]
      by (metis list.set_map)
    with False show ?thesis by (simp add: map_of_eq_None_iff)
  qed
qed

lemma reconcile_entry:
  assumes "reconcile P E = Inr m" "(r, st) \<in> set m"
  shows "r \<in> ReferralEvent.referral_id ` set E"
    and "st = process_referral P r (filter (\<lambda>e. ReferralEvent.referral_id e = r) E)"
proof -
  from reconcile_Inr(1)[OF assms(1)] assms(2) have "map_of m r = Some st" by simp
  with reconcile_Inr(2)[OF assms(1), of r]
  show "r \<in> ReferralEvent.referral_id ` set E"
    and "st = process_referral P r (filter (\<lambda>e. ReferralEvent.referral_id e = r) E)"
    by (auto split: if_splits)
qed


section \<open>Deduplication, gaps and the fields the replay leaves alone\<close>

lemma gap_sum_short: "gap_sum [] = 0" "gap_sum [a] = 0"
  by (simp_all add: gap_sum_def)

lemma gap_sum_Cons2: "gap_sum (a # b # rest) = max 0 (b - a - 1) + gap_sum (b # rest)"
  by (simp add: gap_sum_def sum.lessThan_Suc_shift del: sum.lessThan_Suc)

lemma round_to_double_exact:
  "0 \<le> n \<Longrightarrow> n < 9007199254740992 \<Longrightarrow> round_to_double n = n"
proof -
  assume n: "0 \<le> n" "n < 9007199254740992"
  then have "nat n < 9007199254740992" by simp
  then have "ulp_exponent (nat n) = 0" by (simp add: ulp_exponent.simps)
  then have "round_magnitude (nat n) = nat n" by (simp add: round_magnitude_def)
  with n show ?thesis by (simp add: round_to_double_def)
qed

lemma increasing_head_last:
  "sorted_wrt (<) (map seq (b # rest)) \<Longrightarrow> seq b \<le> seq (last (b # rest))"
  by (cases "rest = []") (auto simp: less_imp_le)

lemma count_gaps_exact:
  "sorted_wrt (<) (map seq xs) \<Longrightarrow> 0 \<le> acc \<Longrightarrow>
   (xs \<noteq> [] \<longrightarrow> acc + (seq (last xs) - seq (hd xs)) < 9007199254740992) \<Longrightarrow>
   count_gaps xs acc = acc + gap_sum (map seq xs)"
proof (induction xs arbitrary: acc rule: induct_list012)
  case 1
  then show ?case by (simp add: gap_sum_short)
next
  case (2 x)
  then show ?case by (simp add: gap_sum_short)
next
  case (3 a b rest)
  let ?d = "seq b - seq a"
  from "3.prems"(1) have ab: "seq a < seq b"
    and inc: "sorted_wrt (<) (map seq (b # rest))" by auto
  from increasing_head_last[OF inc] have bl: "seq b \<le> seq (last (b # rest))" .
  from "3.prems"(3) have bound: "acc + (seq (last (b # rest)) - seq a) < 9007199254740992"
    by simp
  have d: "round_to_double ?d = ?d"
    using ab bl bound "3.prems"(2) by (intro round_to_double_exact) auto
  show ?case
  proof (cases "?d > 1")
    case True
    have d1: "round_to_double (?d - 1) = ?d - 1"
      using True bl bound "3.prems"(2) by (intro round_to_double_exact) auto
    have s: "round_to_double (acc + (?d - 1)) = acc + (?d - 1)"
      using True bl bound "3.prems"(2) by (intro round_to_double_exact) auto
    have "count_gaps (a # b # rest) acc = count_gaps (b # rest) (acc + (?d - 1))"
      using True by (simp add: d d1 s Let_def)
    also have "\<dots> = acc + (?d - 1) + gap_sum (map seq (b # rest))"
      using True "3.prems"(2) bound inc by (intro "3.IH"(2)) auto
    finally show ?thesis using True by (simp add: gap_sum_Cons2 max_def)
  next
    case False
    have "count_gaps (a # b # rest) acc = count_gaps (b # rest) acc"
      using False by (simp add: d Let_def)
    also have "\<dots> = acc + gap_sum (map seq (b # rest))"
      using "3.prems"(2) bound inc ab by (intro "3.IH"(2)) auto
    finally show ?thesis using False ab by (simp add: gap_sum_Cons2 max_def)
  qed
qed

lemma gap_sum_increasing:
  "sorted_wrt (<) s \<Longrightarrow> s \<noteq> [] \<Longrightarrow> gap_sum s = last s - hd s - (int (length s) - 1)"
proof (induction s rule: induct_list012)
  case (3 a b rest)
  then show ?case by (simp add: gap_sum_Cons2 max_def)
qed (simp_all add: gap_sum_short)

lemma dedupe_facts:
  "dedupe raw (u, n) = (u', n') \<Longrightarrow> distinct (map seq u) \<Longrightarrow>
     distinct (map seq u') \<and> seq ` set u' = seq ` set u \<union> seq ` set raw \<and>
     set u' \<subseteq> set u \<union> set raw \<and> set u \<subseteq> set u' \<and>
     n' + int (length u') = n + int (length u) + int (length raw)"
proof (induction raw "(u, n)" arbitrary: u n rule: dedupe.induct)
  case 1
  then show ?case by auto
next
  case (2 e rest u n)
  show ?case
  proof (cases "seq e \<in> set (map seq u)")
    case True
    with 2 show ?thesis by auto
  next
    case False
    with 2(2)[OF False] 2(3,4) show ?thesis by auto
  qed
qed

lemma apply_event_frame:
  "apply_event (st, t) e = (st', t') \<Longrightarrow>
     events st' = events st \<and> ReferralState.referral_id st' = ReferralState.referral_id st \<and>
     duplicates (metrics st') = duplicates (metrics st) \<and> seqGaps (metrics st') = seqGaps (metrics st)"
  by (auto simp: apply_event_def status_logic_def appointment_set_logic_def appointment_cancel_logic_def Let_def
      split: prod.splits option.splits if_splits)

lemma replay_frame:
  "replay st xs = (st', t') \<Longrightarrow>
     events st' = events st \<and> ReferralState.referral_id st' = ReferralState.referral_id st \<and>
     duplicates (metrics st') = duplicates (metrics st) \<and> seqGaps (metrics st') = seqGaps (metrics st)"
proof -
  have "foldl apply_event (s, t) xs = (st', t') \<Longrightarrow>
     events st' = events s \<and> ReferralState.referral_id st' = ReferralState.referral_id s \<and>
     duplicates (metrics st') = duplicates (metrics s) \<and> seqGaps (metrics st') = seqGaps (metrics s)" for s t
  proof (induction xs arbitrary: s t)
    case Nil then show ?case by simp
  next
    case (Cons x xs)
    obtain s1 t1 where s1: "apply_event (s, t) x = (s1, t1)" by (cases "apply_event (s, t) x")
    from Cons.IH[of s1 t1] Cons.prems s1 apply_event_frame[OF s1] show ?case by simp
  qed
  then show "replay st xs = (st', t') \<Longrightarrow> ?thesis" by (simp add: replay_def)
qed

lemma process_referral_fields:
  "events (process_referral P r raw) = sort_key seq (fst (dedupe raw ([], 0)))"
  "ReferralState.referral_id (process_referral P r raw) = r"
  "duplicates (metrics (process_referral P r raw)) = snd (dedupe raw ([], 0))"
  "seqGaps (metrics (process_referral P r raw)) = count_gaps (sort_key seq (fst (dedupe raw ([], 0)))) 0"
proof -
  obtain u n where d: "dedupe raw ([], 0) = (u, n)" by (cases "dedupe raw ([], 0)")
  obtain st t where r: "replay (initial_state r n (count_gaps (sort_key seq u) 0) (sort_key seq u)) (sort_key seq u) = (st, t)"
    by (cases "replay (initial_state r n (count_gaps (sort_key seq u) 0) (sort_key seq u)) (sort_key seq u)")
  from replay_frame[OF r] have f: "events st = sort_key seq u" "ReferralState.referral_id st = r"
    "duplicates (metrics st) = n" "seqGaps (metrics st) = count_gaps (sort_key seq u) 0"
    by (simp_all add: initial_state_def)
  show "events (process_referral P r raw) = sort_key seq (fst (dedupe raw ([], 0)))"
  "ReferralState.referral_id (process_referral P r raw) = r"
  "duplicates (metrics (process_referral P r raw)) = snd (dedupe raw ([], 0))"
  "seqGaps (metrics (process_referral P r raw)) = count_gaps (sort_key seq (fst (dedupe raw ([], 0)))) 0"
    using f by (simp_all add: process_referral_def d r Let_def)
qed


section \<open>Doubling the input\<close>

lemma dedupe_append: "dedupe (xs @ ys) acc = dedupe ys (dedupe xs acc)"
  by (induction xs acc rule: dedupe.induct) auto

lemma dedupe_all_seen:
  "seq ` set ys \<subseteq> seq ` set u \<Longrightarrow> dedupe ys (u, n) = (u, n + int (length ys))"
  by (induction ys arbitrary: n) auto

lemma apply_event_with_duplicates:
  "apply_event (with_duplicates d st, t) e =
     (case apply_event (st, t) e of (s', t') \<Rightarrow> (with_duplicates d s', t'))"
  by (auto simp: with_duplicates_def apply_event_def status_logic_def appointment_set_logic_def
      appointment_cancel_logic_def Let_def split: prod.splits option.splits if_splits)

lemma replay_with_duplicates:
  "replay (with_duplicates d st) xs = (case replay st xs of (s', t') \<Rightarrow> (with_duplicates d s', t'))"
proof -
  have "foldl apply_event (with_duplicates d s, t) xs =
      (case foldl apply_event (s, t) xs of (s', t') \<Rightarrow> (with_duplicates d s', t'))" for s t
  proof (induction xs arbitrary: s t)
    case Nil then show ?case by simp
  next
    case (Cons x xs)
    obtain s1 t1 where s1: "apply_event (s, t) x = (s1, t1)" by (cases "apply_event (s, t) x")
    show ?case using Cons.IH[of s1 t1] by (simp add: apply_event_with_duplicates s1)
  qed
  then show ?thesis by (simp add: replay_def)
qed

lemma process_referral_doubled:
  "process_referral P r (raw @ raw) =
     with_duplicates (2 * duplicates (metrics (process_referral P r raw))
                       + int (length (events (process_referral P r raw))))
       (process_referral P r raw)"
proof -
  obtain u n where d: "dedupe raw ([], 0) = (u, n)" by (cases "dedupe raw ([], 0)")
  from dedupe_facts[OF d] have sq: "seq ` set u = seq ` set raw"
    and len: "n + int (length u) = int (length raw)" by auto
  have d2: "dedupe (raw @ raw) ([], 0) = (u, n + int (length raw))"
    using dedupe_all_seen[of raw u n] sq by (simp add: dedupe_append d)
  let ?g = "count_gaps (sort_key seq u) 0"
  have init: "initial_state r (n + int (length raw)) ?g (sort_key seq u) =
      with_duplicates (n + int (length raw)) (initial_state r n ?g (sort_key seq u))"
    by (simp add: initial_state_def with_duplicates_def)
  obtain st t where rp: "replay (initial_state r n ?g (sort_key seq u)) (sort_key seq u) = (st, t)"
    by (cases "replay (initial_state r n ?g (sort_key seq u)) (sort_key seq u)")
  have dup: "duplicates (metrics (process_referral P r raw)) = n"
    and ev: "events (process_referral P r raw) = sort_key seq u"
    by (simp_all add: process_referral_fields d)
  have "process_referral P r (raw @ raw) =
      with_duplicates (n + int (length raw)) (process_referral P r raw)"
    by (simp add: process_referral_def d d2 init replay_with_duplicates rp Let_def)
      (simp add: with_duplicates_def)
  moreover have "n + int (length raw) = 2 * n + int (length (sort_key seq u))"
    using len by simp
  ultimately show ?thesis by (simp add: dup ev)
qed


section \<open>Reordering the input\<close>

lemma dedupe_set_unique:
  assumes "dedupe raw ([], 0) = (u, n)"
    and "\<forall>a\<in>set raw. \<forall>b\<in>set raw. seq a = seq b \<longrightarrow> a = b"
  shows "set u = set raw"
proof
  from dedupe_facts[OF assms(1)] have sub: "set u \<subseteq> set raw"
    and sq: "seq ` set u = seq ` set raw" by auto
  show "set u \<subseteq> set raw" by (rule sub)
  show "set raw \<subseteq> set u"
  proof
    fix x assume x: "x \<in> set raw"
    then have "seq x \<in> seq ` set u" using sq by blast
    then obtain y where y: "y \<in> set u" "seq y = seq x" by auto
    with sub x assms(2) have "y = x" by blast
    with y show "x \<in> set u" by simp
  qed
qed

lemma process_referral_perm:
  assumes "mset raw' = mset raw"
    and "\<forall>a\<in>set raw. \<forall>b\<in>set raw. seq a = seq b \<longrightarrow> a = b"
  shows "process_referral P r raw' = process_referral P r raw"
proof -
  obtain u n where d: "dedupe raw ([], 0) = (u, n)" by (cases "dedupe raw ([], 0)")
  obtain u' n' where d': "dedupe raw' ([], 0) = (u', n')" by (cases "dedupe raw' ([], 0)")
  have sets: "set raw' = set raw" using assms(1) by (metis set_mset_mset)
  have len: "length raw' = length raw" using assms(1) by (metis size_mset)
  have su: "set u = set raw" by (rule dedupe_set_unique[OF d assms(2)])
  have su': "set u' = set raw" using dedupe_set_unique[OF d'] assms(2) sets by simp
  have inj: "inj_on seq (set raw)" using assms(2) by (auto simp: inj_on_def)
  from dedupe_facts[OF d] have du: "distinct (map seq u)"
    and cn: "n + int (length u) = int (length raw)" by auto
  from dedupe_facts[OF d'] have du': "distinct (map seq u')"
    and cn': "n' + int (length u') = int (length raw')" by auto
  have dist: "distinct (map seq (sort_key seq u))" "distinct (map seq (sort_key seq u'))"
    using du du' by (metis mset_eq_imp_distinct_iff mset_map mset_sort)+
  have eq: "sort_key seq u' = sort_key seq u"
    by (rule map_sorted_distinct_set_unique[where f = seq])
       (use inj su su' dist in \<open>simp_all add: sorted_sort_key\<close>)
  then have "length u' = length u" by (metis length_sort)
  with cn cn' len have "n' = n" by simp
  with eq show ?thesis by (simp add: process_referral_def d d')
qed


section \<open>Selection of the active appointment\<close>

lemma earlier_iff:
  "earlier P a b \<longleftrightarrow> (\<exists>x y. P (start_time a) = Some x \<and> P (start_time b) = Some y \<and> x < y)"
  by (auto simp: earlier_def less_than_zero_def compareAsc_def split: option.splits)

lemma pick_best_None [simp]: "pick_best P b None = b"
  by (simp add: pick_best_def)

lemma pick_best_Some:
  "pick_best P b (Some a) = Some (case b of None \<Rightarrow> a | Some c \<Rightarrow> if earlier P a c then a else c)"
  by (simp add: pick_best_def earlier_def split: option.splits)

lemma foldl_pick_best_skip:
  "foldl (pick_best P) b vals = foldl (pick_best P) b (map Some (List.map_filter id vals))"
proof (induction vals arbitrary: b)
  case Nil then show ?case by (simp add: map_filter_simps)
next
  case (Cons v vs)
  then show ?case by (cases v) (simp_all add: map_filter_simps)
qed

lemma foldl_pick_best_split:
  "\<exists>pre b post. foldl (pick_best P) (Some x) (map Some xs) = Some b \<and> x # xs = pre @ b # post \<and>
      (\<forall>a\<in>set pre. P (start_time a) = None \<or> earlier P b a) \<and>
      (\<forall>a\<in>set post. \<not> earlier P a b)"
proof (induction xs rule: rev_induct)
  case Nil
  show ?case by (rule exI[of _ "[]"], rule exI[of _ x], rule exI[of _ "[]"]) simp
next
  case (snoc c xs)
  then obtain pre b post where f: "foldl (pick_best P) (Some x) (map Some xs) = Some b"
    and sp: "x # xs = pre @ b # post"
    and pre: "\<forall>a\<in>set pre. P (start_time a) = None \<or> earlier P b a"
    and post: "\<forall>a\<in>set post. \<not> earlier P a b" by blast
  show ?case
  proof (cases "earlier P c b")
    case True
    have res: "foldl (pick_best P) (Some x) (map Some (xs @ [c])) = Some c"
      using f True by (simp add: pick_best_Some)
    have sp': "x # (xs @ [c]) = (pre @ b # post) @ c # []" using sp by simp
    from True obtain x y where x: "P (start_time c) = Some x" and y: "P (start_time b) = Some y"
      and xy: "x < y" by (auto simp: earlier_iff)
    have "P (start_time a) = None \<or> earlier P c a" if a: "a \<in> set (pre @ b # post)" for a
    proof (cases "P (start_time a)")
      case None
      then show ?thesis by simp
    next
      case (Some z)
      have "y \<le> z"
      proof -
        from a consider "a \<in> set pre" | "a = b" | "a \<in> set post" by auto
        then show ?thesis
        proof cases
          case 1
          with pre Some y show ?thesis by (auto simp: earlier_iff)
        next
          case 2
          with Some y show ?thesis by simp
        next
          case 3
          with post Some y show ?thesis by (auto simp: earlier_iff)
        qed
      qed
      with xy x Some show ?thesis by (auto simp: earlier_iff)
    qed
    then have "\<forall>a\<in>set (pre @ b # post). P (start_time a) = None \<or> earlier P c a" by blast
    with res sp' show ?thesis by (metis empty_iff list.set(1))
  next
    case False
    have res: "foldl (pick_best P) (Some x) (map Some (xs @ [c])) = Some b"
      using f False by (simp add: pick_best_Some)
    have sp': "x # (xs @ [c]) = pre @ b # (post @ [c])" using sp by simp
    have "\<forall>a\<in>set (post @ [c]). \<not> earlier P a b" using post False by auto
    with res sp' pre show ?thesis by blast
  qed
qed

lemma select_active_char:
  "if non_cancelled appts = [] then select_active P appts = None
   else \<exists>pre b post. select_active P appts = Some b \<and> non_cancelled appts = pre @ b # post \<and>
      (\<forall>a\<in>set pre. P (start_time a) = None \<or> earlier P b a) \<and>
      (\<forall>a\<in>set post. \<not> earlier P a b)"
proof (cases "non_cancelled appts")
  case Nil
  then show ?thesis
    using foldl_pick_best_skip[of P None "Object_values (own appts)"]
    by (simp add: select_active_def non_cancelled_def)
next
  case (Cons x xs)
  have "select_active P appts = foldl (pick_best P) (Some x) (map Some xs)"
    using foldl_pick_best_skip[of P None "Object_values (own appts)"] Cons
    by (simp add: select_active_def non_cancelled_def pick_best_Some)
  with foldl_pick_best_split[of P x xs] Cons show ?thesis by simp
qed

lemma process_referral_active:
  "active_appointment (process_referral P r raw) =
     (if ReferralState.status (process_referral P r raw) \<in> set TERMINAL_STATUSES then None
      else select_active P (appointments (process_referral P r raw)))"
proof -
  obtain u n where d: "dedupe raw ([], 0) = (u, n)" by (cases "dedupe raw ([], 0)")
  let ?s0 = "initial_state r n (count_gaps (sort_key seq u) 0) (sort_key seq u)"
  obtain st t where rp: "replay ?s0 (sort_key seq u) = (st, t)"
    by (cases "replay ?s0 (sort_key seq u)")
  have "t \<longleftrightarrow> ReferralState.status st \<in> set TERMINAL_STATUSES"
    using foldl_apply_event_inv[of False ?s0 "sort_key seq u" st t] rp
    by (simp add: replay_def initial_state_def TERMINAL_STATUSES_def)
  then show ?thesis by (simp add: process_referral_def d rp Let_def)
qed


section \<open>C1: permutation invariance\<close>

text \<open>
  Counterexample to claim C1 as stated. \<open>R1_set_A\<close> and \<open>R1_cancel_A\<close> share
  \<open>(referral_id, seq)\<close> and carry the same payload, so the hypothesis of the claim holds
  for the list \<open>[R1_set_A, R1_cancel_A]\<close>; they differ in their type. Deduplication keeps
  the first of the two, and the two orders give different results: with the
  APPOINTMENT_SET first, appointment A is active; with the APPOINTMENT_CANCELLED first,
  there is no appointment.
\<close>

theorem permutation_changes_result:
  "mset [R1_cancel_A, R1_set_A] = mset [R1_set_A, R1_cancel_A] \<and>
   ReferralEvent.referral_id R1_set_A = ReferralEvent.referral_id R1_cancel_A \<and>
   seq R1_set_A = seq R1_cancel_A \<and>
   payload R1_set_A = payload R1_cancel_A \<and>
   reconcile example_parseISO [R1_set_A, R1_cancel_A]
     = Inr [(''R1'', process_referral example_parseISO ''R1'' [R1_set_A, R1_cancel_A])] \<and>
   reconcile example_parseISO [R1_cancel_A, R1_set_A]
     = Inr [(''R1'', process_referral example_parseISO ''R1'' [R1_cancel_A, R1_set_A])] \<and>
   active_appointment (process_referral example_parseISO ''R1'' [R1_set_A, R1_cancel_A])
     = Some \<lparr>appt_id = ''A'', start_time = ''2025-05-05T09:00:00Z''\<rparr> \<and>
   active_appointment (process_referral example_parseISO ''R1'' [R1_cancel_A, R1_set_A]) = None \<and>
   as_record (reconcile example_parseISO [R1_cancel_A, R1_set_A])
     \<noteq> as_record (reconcile example_parseISO [R1_set_A, R1_cancel_A])"
proof -
  have r1: "reconcile example_parseISO [R1_set_A, R1_cancel_A]
     = Inr [(''R1'', process_referral example_parseISO ''R1'' [R1_set_A, R1_cancel_A])]"
    and r2: "reconcile example_parseISO [R1_cancel_A, R1_set_A]
     = Inr [(''R1'', process_referral example_parseISO ''R1'' [R1_cancel_A, R1_set_A])]"
    by (simp_all add: reconcile_def R1_set_A_def R1_cancel_A_def event_defs push_event_def
        own_properties_def array_index_def is_digit_def Object_prototype_keys_def)
  have a1: "active_appointment (process_referral example_parseISO ''R1'' [R1_set_A, R1_cancel_A])
     = Some \<lparr>appt_id = ''A'', start_time = ''2025-05-05T09:00:00Z''\<rparr>"
    and a2: "active_appointment (process_referral example_parseISO ''R1'' [R1_cancel_A, R1_set_A])
     = None"
    by (simp_all add: process_referral_def R1_set_A_def R1_cancel_A_def event_defs replay_defs
        select_active_def Object_values_def own_properties_def array_index_def is_digit_def
        pick_best_def)
  have "map_of [(''R1'', process_referral example_parseISO ''R1'' [R1_cancel_A, R1_set_A])] ''R1''
      \<noteq> map_of [(''R1'', process_referral example_parseISO ''R1'' [R1_set_A, R1_cancel_A])] ''R1''"
    using a1 a2 by auto
  then have ne: "as_record (reconcile example_parseISO [R1_cancel_A, R1_set_A])
     \<noteq> as_record (reconcile example_parseISO [R1_set_A, R1_cancel_A])"
    unfolding r1 r2 as_record_def by (metis old.sum.simps(6) sum.inject(2))
  have "mset [R1_cancel_A, R1_set_A] = mset [R1_set_A, R1_cancel_A]" by (simp add: add.commute)
  with r1 r2 a1 a2 ne show ?thesis
    by (simp add: R1_set_A_def R1_cancel_A_def event_defs)
qed

text \<open>
  Claim C1, amended. If any two events of \<open>E\<close> with the same \<open>(referral_id, seq)\<close> are
  the same event (same type and same payload), then for every permutation \<open>E'\<close> of \<open>E\<close>
  \<open>reconcile\<close> either raises on both lists or returns on both the same record: the same
  referral ids, each with the same state, all five counters included. (The order in
  which the keys of the returned object are enumerated follows the input order and is
  not part of this equality.)
\<close>

theorem permutation_invariance:
  assumes "mset E' = mset E"
    and "\<forall>a\<in>set E. \<forall>b\<in>set E.
           ReferralEvent.referral_id a = ReferralEvent.referral_id b \<and> seq a = seq b \<longrightarrow> a = b"
  shows "as_record (reconcile parseISO E') = as_record (reconcile parseISO E)"
proof -
  have sets: "set E' = set E" using assms(1) by (metis set_mset_mset)
  show ?thesis
  proof (cases "reconcile parseISO E")
    case (Inl err)
    then have "reconcile parseISO E' = Inl err" using sets by (simp add: reconcile_Inl)
    with Inl show ?thesis by simp
  next
    case (Inr m)
    have "\<not> (\<exists>err. reconcile parseISO E' = Inl err)"
      using Inr reconcile_Inl[of parseISO E] reconcile_Inl[of parseISO E'] sets by auto
    then obtain m' where m': "reconcile parseISO E' = Inr m'"
      by (cases "reconcile parseISO E'") auto
    have "map_of m' r = map_of m r" for r
    proof -
      let ?p = "\<lambda>e. ReferralEvent.referral_id e = r"
      have "mset (filter ?p E') = mset (filter ?p E)" using assms(1) by (metis mset_filter)
      moreover have "\<forall>a\<in>set (filter ?p E). \<forall>b\<in>set (filter ?p E). seq a = seq b \<longrightarrow> a = b"
        using assms(2) by auto
      ultimately have "process_referral parseISO r (filter ?p E') = process_referral parseISO r (filter ?p E)"
        by (rule process_referral_perm)
      then show ?thesis
        unfolding reconcile_Inr(2)[OF m'] reconcile_Inr(2)[OF Inr] using sets by simp
    qed
    then have "map_of m' = map_of m" by (rule ext)
    with Inr m' show ?thesis by (simp add: as_record_def)
  qed
qed


theorem permutation_invariance_witness:
  "mset R2_events_reordered = mset R2_events \<and>
   as_record (reconcile example_parseISO R2_events_reordered)
     = as_record (reconcile example_parseISO R2_events)"
proof -
  have h1: "mset R2_events_reordered = mset R2_events"
    by (simp add: R2_events_reordered_def R2_events_def)
  have h2: "\<forall>a\<in>set R2_events. \<forall>b\<in>set R2_events.
      ReferralEvent.referral_id a = ReferralEvent.referral_id b \<and> seq a = seq b \<longrightarrow> a = b"
    by (simp add: R2_events_def event_defs)
  from permutation_invariance[OF h1 h2] h1 show ?thesis by simp
qed


section \<open>C2: the active appointment\<close>

lemmas select_defs = select_active_def Object_values_def own_properties_def array_index_def
  is_digit_def pick_best_def compareAsc_def less_than_zero_def example_parseISO_def
  non_cancelled_def map_filter_simps

text \<open>
  Counterexample to claim C2 as stated. In \<open>R4_tie_events\<close> the referral is not terminal
  and appointments B and A are both present with the same start time. The claim makes A
  the active appointment (ascending \<open>appt_id\<close>); the code keeps B, the first of the two in
  the enumeration of the \<open>appointments\<close> object, because a later appointment replaces the
  best one only when it is strictly earlier.
\<close>

theorem tie_not_broken_by_appt_id:
  "reconcile example_parseISO R4_tie_events
     = Inr [(''R4'', process_referral example_parseISO ''R4'' R4_tie_events)] \<and>
   ReferralState.status (process_referral example_parseISO ''R4'' R4_tie_events) = ''SCHEDULED'' \<and>
   non_cancelled (appointments (process_referral example_parseISO ''R4'' R4_tie_events))
     = [\<lparr>appt_id = ''B'', start_time = ''2025-05-10T09:00:00Z''\<rparr>,
        \<lparr>appt_id = ''A'', start_time = ''2025-05-10T09:00:00Z''\<rparr>] \<and>
   ''A'' < ''B'' \<and>
   active_appointment (process_referral example_parseISO ''R4'' R4_tie_events)
     = Some \<lparr>appt_id = ''B'', start_time = ''2025-05-10T09:00:00Z''\<rparr> \<and>
   active_appointment (process_referral example_parseISO ''R4'' R4_tie_events)
     \<noteq> Some \<lparr>appt_id = ''A'', start_time = ''2025-05-10T09:00:00Z''\<rparr>"
proof -
  have r: "reconcile example_parseISO R4_tie_events
     = Inr [(''R4'', process_referral example_parseISO ''R4'' R4_tie_events)]"
    by (simp add: reconcile_def R4_tie_events_def event_defs push_event_def own_properties_def
        array_index_def is_digit_def Object_prototype_keys_def)
  have s: "ReferralState.status (process_referral example_parseISO ''R4'' R4_tie_events)
      = ''SCHEDULED''"
    and n: "non_cancelled (appointments (process_referral example_parseISO ''R4'' R4_tie_events))
     = [\<lparr>appt_id = ''B'', start_time = ''2025-05-10T09:00:00Z''\<rparr>,
        \<lparr>appt_id = ''A'', start_time = ''2025-05-10T09:00:00Z''\<rparr>]"
    and a: "active_appointment (process_referral example_parseISO ''R4'' R4_tie_events)
     = Some \<lparr>appt_id = ''B'', start_time = ''2025-05-10T09:00:00Z''\<rparr>"
    by (simp_all add: process_referral_def R4_tie_events_def event_defs replay_defs select_defs)
  from r s n a show ?thesis by simp
qed

text \<open>
  Claim C2, amended. In each state returned by \<open>reconcile\<close>: if the status is terminal or
  there is no non-cancelled appointment, \<open>active_appointment\<close> is null. Otherwise it is a
  non-cancelled appointment \<open>b\<close> of the referral such that no non-cancelled appointment
  is strictly earlier than \<open>b\<close>, and ties are broken by position, not by \<open>appt_id\<close>: every
  appointment enumerated before \<open>b\<close> whose start time parses as a date is strictly later
  than \<open>b\<close>, so \<open>b\<close> is the first appointment of minimum start time in the enumeration
  order of the \<open>appointments\<close> object.
\<close>

theorem active_appointment_selection:
  assumes "reconcile parseISO E = Inr m" and "(r, st) \<in> set m"
  shows "if ReferralState.status st \<in> set TERMINAL_STATUSES \<or> non_cancelled (appointments st) = []
         then active_appointment st = None
         else \<exists>pre b post.
                active_appointment st = Some b \<and>
                non_cancelled (appointments st) = pre @ b # post \<and>
                (\<forall>a\<in>set (non_cancelled (appointments st)). \<not> earlier parseISO a b) \<and>
                (\<forall>a\<in>set pre. parseISO (start_time a) \<noteq> None \<longrightarrow> earlier parseISO b a)"
proof -
  from reconcile_entry[OF assms]
  have st: "st = process_referral parseISO r (filter (\<lambda>e. ReferralEvent.referral_id e = r) E)"
    by auto
  show ?thesis
  proof (cases "ReferralState.status st \<in> set TERMINAL_STATUSES \<or> non_cancelled (appointments st) = []")
    case True
    then show ?thesis
      using select_active_char[of "appointments st" parseISO]
      unfolding st process_referral_active by (auto split: if_splits)
  next
    case False
    then have act: "active_appointment st = select_active parseISO (appointments st)"
      unfolding st process_referral_active by simp
    from False select_active_char[of "appointments st" parseISO]
    obtain pre b post where b: "select_active parseISO (appointments st) = Some b"
      and sp: "non_cancelled (appointments st) = pre @ b # post"
      and pre: "\<forall>a\<in>set pre. parseISO (start_time a) = None \<or> earlier parseISO b a"
      and post: "\<forall>a\<in>set post. \<not> earlier parseISO a b"
      by auto
    have none: "\<not> earlier parseISO a b" if "a \<in> set (non_cancelled (appointments st))" for a
    proof -
      from that sp consider "a \<in> set pre" | "a = b" | "a \<in> set post" by auto
      then show ?thesis
      proof cases
        case 1
        with pre show ?thesis by (auto simp: earlier_iff)
      next
        case 2
        then show ?thesis by (auto simp: earlier_iff)
      next
        case 3
        with post show ?thesis by simp
      qed
    qed
    have "active_appointment st = Some b \<and>
                non_cancelled (appointments st) = pre @ b # post \<and>
                (\<forall>a\<in>set (non_cancelled (appointments st)). \<not> earlier parseISO a b) \<and>
                (\<forall>a\<in>set pre. parseISO (start_time a) \<noteq> None \<longrightarrow> earlier parseISO b a)"
      using act b sp none pre by auto
    then have "\<exists>pre b post. active_appointment st = Some b \<and>
                non_cancelled (appointments st) = pre @ b # post \<and>
                (\<forall>a\<in>set (non_cancelled (appointments st)). \<not> earlier parseISO a b) \<and>
                (\<forall>a\<in>set pre. parseISO (start_time a) \<noteq> None \<longrightarrow> earlier parseISO b a)"
      by blast
    with False show ?thesis by simp
  qed
qed

theorem active_appointment_selection_witness:
  "non_cancelled (appointments (process_referral example_parseISO ''R4'' R4_events))
     = [\<lparr>appt_id = ''B'', start_time = ''2025-05-10T09:00:00Z''\<rparr>,
        \<lparr>appt_id = ''A'', start_time = ''2025-05-05T09:00:00Z''\<rparr>] \<and>
   active_appointment (process_referral example_parseISO ''R4'' R4_events)
     = Some \<lparr>appt_id = ''A'', start_time = ''2025-05-05T09:00:00Z''\<rparr>"
proof -
  let ?st = "process_referral example_parseISO ''R4'' R4_events"
  let ?A = "\<lparr>appt_id = ''A'', start_time = ''2025-05-05T09:00:00Z''\<rparr>"
  let ?B = "\<lparr>appt_id = ''B'', start_time = ''2025-05-10T09:00:00Z''\<rparr>"
  have h1: "reconcile example_parseISO R4_events = Inr [(''R4'', ?st)]"
    by (simp add: reconcile_def R4_events_def event_defs push_event_def own_properties_def
        array_index_def is_digit_def Object_prototype_keys_def)
  have h2: "(''R4'', ?st) \<in> set [(''R4'', ?st)]" by simp
  have s: "ReferralState.status ?st = ''SCHEDULED''"
    and n: "non_cancelled (appointments ?st) = [?B, ?A]"
    by (simp_all add: process_referral_def R4_events_def event_defs replay_defs select_defs)
  have e: "earlier example_parseISO ?A ?B"
    by (simp add: earlier_def compareAsc_def less_than_zero_def example_parseISO_def)
  have nt: "\<not> (ReferralState.status ?st \<in> set TERMINAL_STATUSES \<or> [?B, ?A] = [])"
    using s by (simp add: TERMINAL_STATUSES_def)
  have "\<exists>pre b post.
      active_appointment ?st = Some b \<and> [?B, ?A] = pre @ b # post \<and>
      (\<forall>a\<in>set [?B, ?A]. \<not> earlier example_parseISO a b) \<and>
      (\<forall>a\<in>set pre. example_parseISO (start_time a) \<noteq> None \<longrightarrow> earlier example_parseISO b a)"
    using active_appointment_selection[OF h1 h2, unfolded n] by (simp only: nt if_False)
  then obtain pre b post where b: "active_appointment ?st = Some b"
    and sp: "[?B, ?A] = pre @ b # post"
    and none: "\<forall>a\<in>set [?B, ?A]. \<not> earlier example_parseISO a b"
    by blast
  from sp have "b = ?A \<or> b = ?B"
    by (cases pre; cases post) (auto simp: Cons_eq_append_conv)
  with none e have "b = ?A" by auto
  with b n show ?thesis by simp
qed


section \<open>C3: terminal absorption\<close>

text \<open>
  Claim C3. Once the replayed status of a referral is COMPLETED or CANCELLED (after the
  events \<open>before\<close>), the status stays terminal whatever events follow (\<open>between\<close>), and any
  later STATUS_UPDATE \<open>e\<close> carrying the status \<open>s\<close> behaves as follows: if \<open>s\<close> is not
  terminal the event changes nothing at all (status, appointments and every counter are
  those of the state before it); if \<open>s\<close> is terminal the status becomes \<open>s\<close>,
  \<open>terminalOverrides\<close> grows by exactly one, nothing else changes, and the referral
  remains terminal.
\<close>

theorem terminal_absorption:
  assumes "ReferralState.status state0 \<notin> set TERMINAL_STATUSES"
    and "replay state0 before = (st, t)"
    and "ReferralState.status st \<in> set TERMINAL_STATUSES"
    and "replay state0 (before @ between) = (st', t')"
    and "type e = ''STATUS_UPDATE''"
    and "Payload.status (payload e) = Some s"
  shows "ReferralState.status st' \<in> set TERMINAL_STATUSES \<and>
         replay state0 (before @ between @ [e]) =
           (if s \<in> set TERMINAL_STATUSES
            then (st'\<lparr>ReferralState.status := s,
                      metrics := (metrics st')\<lparr>terminalOverrides :=
                        terminalOverrides (metrics st') + 1\<rparr>\<rparr>, True)
            else (st', True))"
proof -
  have t: "t"
    using foldl_apply_event_inv[of False state0 before st t] assms(1,2,3)
    by (simp add: replay_def)
  have mid: "foldl apply_event (st, t) between = (st', t')"
    using assms(2,4) by (simp add: replay_def)
  have t': "t'" using foldl_terminal_stays[OF t mid] .
  have inv: "t' \<longleftrightarrow> ReferralState.status st' \<in> set TERMINAL_STATUSES"
    using foldl_apply_event_inv[of False state0 "before @ between" st' t'] assms(1,4)
    by (simp add: replay_def)
  have "replay state0 (before @ between @ [e]) = apply_event (st', t') e"
    using assms(4) by (simp add: replay_def)
  with t' inv apply_status_update_terminal[OF assms(5,6), of st'] show ?thesis by simp
qed

theorem terminal_absorption_witness:
  "ReferralState.status (fst (replay (initial_state ''R5'' 0 0 []) ([R5_cancelled] @ [R5_sent])))
     = ''CANCELLED'' \<and>
   ReferralState.status
     (fst (replay (initial_state ''R5'' 0 0 []) ([R5_cancelled] @ [R5_sent] @ [R5_completed])))
     = ''COMPLETED'' \<and>
   terminalOverrides (metrics
     (fst (replay (initial_state ''R5'' 0 0 []) ([R5_cancelled] @ [R5_sent] @ [R5_completed]))))
     = 1"
proof -
  let ?s0 = "initial_state ''R5'' 0 0 []"
  have h1: "ReferralState.status ?s0 \<notin> set TERMINAL_STATUSES"
    by (simp add: replay_defs)
  have h2: "replay ?s0 [R5_cancelled] =
      (fst (replay ?s0 [R5_cancelled]), snd (replay ?s0 [R5_cancelled]))" by simp
  have h3: "ReferralState.status (fst (replay ?s0 [R5_cancelled])) \<in> set TERMINAL_STATUSES"
    by (simp add: replay_defs R5_cancelled_def event_defs)
  have h4: "replay ?s0 ([R5_cancelled] @ [R5_sent]) =
      (fst (replay ?s0 ([R5_cancelled] @ [R5_sent])),
       snd (replay ?s0 ([R5_cancelled] @ [R5_sent])))" by simp
  have h5: "type R5_completed = ''STATUS_UPDATE''"
    by (simp add: R5_completed_def event_defs)
  have h6: "Payload.status (payload R5_completed) = Some ''COMPLETED''"
    by (simp add: R5_completed_def event_defs)
  have st': "ReferralState.status (fst (replay ?s0 ([R5_cancelled] @ [R5_sent]))) = ''CANCELLED''"
    and m': "terminalOverrides (metrics (fst (replay ?s0 ([R5_cancelled] @ [R5_sent])))) = 0"
    by (simp_all add: replay_defs R5_cancelled_def R5_sent_def event_defs)
  from terminal_absorption[OF h1 h2 h3 h4 h5 h6] st' m' show ?thesis
    by (simp add: TERMINAL_STATUSES_def)
qed


section \<open>C4: gap accounting\<close>

lemma retained_seqs:
  assumes "dedupe raw ([], 0) = (u, n)"
  shows "sorted_wrt (<) (map seq (sort_key seq u))"
    and "set (map seq (sort_key seq u)) = seq ` set raw"
    and "set (sort_key seq u) \<subseteq> set raw"
proof -
  from dedupe_facts[OF assms] have d: "distinct (map seq u)"
    and s: "seq ` set u = seq ` set raw" and sub: "set u \<subseteq> set raw" by auto
  have "mset (map seq (sort_key seq u)) = mset (map seq u)" by simp
  then have "distinct (map seq (sort_key seq u))"
    using d by (metis mset_eq_imp_distinct_iff)
  moreover have "sorted (map seq (sort_key seq u))" by (rule sorted_sort_key)
  ultimately show "sorted_wrt (<) (map seq (sort_key seq u))"
    by (simp add: strict_sorted_iff)
  show "set (map seq (sort_key seq u)) = seq ` set raw" using s by simp
  show "set (sort_key seq u) \<subseteq> set raw" using sub by simp
qed

lemmas double_defs = round_to_double_def round_magnitude_def ulp_exponent.simps Let_def

text \<open>
  Counterexample to claim C4 as stated. The retained sequence numbers of \<open>R9_events\<close>
  are 0, \<open>2^53 + 2\<close> and \<open>2^53 + 4\<close>, a strictly increasing list of doubles. The sum of
  \<open>max(0, seq[i+1] - seq[i] - 1)\<close> and \<open>last - first - (len - 1)\<close> are both \<open>2^53 + 2\<close>;
  the code computes \<open>2^53\<close>, because \<open>diff - 1 = 2^53 + 1\<close> is not a double and rounds to
  \<open>2^53\<close>, and adding 1 to \<open>2^53\<close> rounds back to \<open>2^53\<close>.
\<close>

theorem gaps_rounded_above_safe_integers:
  "reconcile example_parseISO R9_events
     = Inr [(''R9'', process_referral example_parseISO ''R9'' R9_events)] \<and>
   map seq (events (process_referral example_parseISO ''R9'' R9_events))
     = [0, 9007199254740994, 9007199254740996] \<and>
   seqGaps (metrics (process_referral example_parseISO ''R9'' R9_events)) = 9007199254740992 \<and>
   gap_sum [0, 9007199254740994, 9007199254740996] = 9007199254740994 \<and>
   last [0, 9007199254740994, 9007199254740996] - hd [0, 9007199254740994, 9007199254740996]
     - (int (length [0, 9007199254740994, 9007199254740996 :: int]) - 1) = (9007199254740994 :: int)"
proof -
  have r: "reconcile example_parseISO R9_events
     = Inr [(''R9'', process_referral example_parseISO ''R9'' R9_events)]"
    by (simp add: reconcile_def R9_events_def event_defs push_event_def own_properties_def
        array_index_def is_digit_def Object_prototype_keys_def)
  have ev: "events (process_referral example_parseISO ''R9'' R9_events) = R9_events"
    by (simp add: process_referral_fields R9_events_def event_defs)
  have d1: "round_to_double 9007199254740994 = 9007199254740994"
    and d2: "round_to_double 9007199254740993 = 9007199254740992"
    and d3: "round_to_double 9007199254740992 = 9007199254740992"
    and d4: "round_to_double 2 = 2" and d5: "round_to_double 1 = 1"
    by (simp_all add: double_defs)
  have g: "seqGaps (metrics (process_referral example_parseISO ''R9'' R9_events))
      = 9007199254740992"
    unfolding process_referral_fields(4) ev[unfolded process_referral_fields(1)]
    by (simp add: R9_events_def event_defs d1 d2 d3 d4 d5)
  have s: "gap_sum [0, 9007199254740994, 9007199254740996] = 9007199254740994"
    by (simp add: gap_sum_Cons2 gap_sum_short)
  from r ev g s show ?thesis by (simp add: R9_events_def event_defs)
qed

text \<open>
  Claim C4, amended. For every referral state \<open>st\<close> that \<open>reconcile\<close> returns for a
  referral \<open>r\<close> whose events carry non-negative sequence numbers not above
  \<open>Number.MAX_SAFE_INTEGER\<close>: the retained events carry the sequence numbers of the input
  events of \<open>r\<close>, each once, in strictly increasing order; \<open>seqGaps\<close> is the sum over
  consecutive retained pairs of \<open>max(0, seq[i+1] - seq[i] - 1)\<close>; and it equals
  \<open>last - first - (len - 1)\<close>, so that nothing before the first or after the last retained
  number is counted.
\<close>

theorem gap_accounting:
  assumes "reconcile parseISO E = Inr m" and "(r, st) \<in> set m"
    and "\<forall>e\<in>set E. ReferralEvent.referral_id e = r \<longrightarrow> 0 \<le> seq e \<and> seq e \<le> MAX_SAFE_INTEGER"
  shows "map seq (events st) \<noteq> [] \<and>
         sorted_wrt (<) (map seq (events st)) \<and>
         set (map seq (events st)) = seq ` {e \<in> set E. ReferralEvent.referral_id e = r} \<and>
         seqGaps (metrics st) = gap_sum (map seq (events st)) \<and>
         seqGaps (metrics st) =
           last (map seq (events st)) - hd (map seq (events st))
             - (int (length (map seq (events st))) - 1)"
proof -
  let ?raw = "filter (\<lambda>e. ReferralEvent.referral_id e = r) E"
  from reconcile_entry[OF assms(1,2)] have r: "r \<in> ReferralEvent.referral_id ` set E"
    and st: "st = process_referral parseISO r ?raw" by auto
  obtain u n where d: "dedupe ?raw ([], 0) = (u, n)" by (cases "dedupe ?raw ([], 0)")
  have ev: "events st = sort_key seq u"
    and g: "seqGaps (metrics st) = count_gaps (sort_key seq u) 0"
    by (simp_all add: st process_referral_fields d)
  from retained_seqs[OF d] have inc: "sorted_wrt (<) (map seq (events st))"
    and s: "set (map seq (events st)) = seq ` set ?raw"
    and sub: "set (events st) \<subseteq> set ?raw" unfolding ev by auto
  from r have "set ?raw \<noteq> {}" by (auto simp: filter_empty_conv)
  with s have ne: "map seq (events st) \<noteq> []" by (metis image_is_empty set_empty)
  then have ne': "events st \<noteq> []" by simp
  have range: "0 \<le> seq e \<and> seq e \<le> MAX_SAFE_INTEGER" if "e \<in> set (events st)" for e
    using that sub assms(3) by auto
  have "0 \<le> seq (hd (events st))" using range[of "hd (events st)"] ne' by simp
  moreover have "seq (last (events st)) \<le> MAX_SAFE_INTEGER"
    using range[of "last (events st)"] ne' by simp
  ultimately have span: "0 + (seq (last (events st)) - seq (hd (events st))) < 9007199254740992"
    by (simp add: MAX_SAFE_INTEGER_def)
  have "count_gaps (events st) 0 = 0 + gap_sum (map seq (events st))"
    using inc span by (intro count_gaps_exact) auto
  then have gs: "seqGaps (metrics st) = gap_sum (map seq (events st))"
    using g by (simp add: ev)
  have "set ?raw = {e \<in> set E. ReferralEvent.referral_id e = r}" by auto
  with ne inc s gs gap_sum_increasing[OF inc ne] show ?thesis by simp
qed

theorem gap_accounting_witness:
  "map seq (events (process_referral example_parseISO ''R2'' R2_events)) = [1, 3] \<and>
   seqGaps (metrics (process_referral example_parseISO ''R2'' R2_events)) = 1"
proof -
  let ?st = "process_referral example_parseISO ''R2'' R2_events"
  have h1: "reconcile example_parseISO R2_events = Inr [(''R2'', ?st)]"
    by (simp add: reconcile_def R2_events_def event_defs push_event_def own_properties_def
        array_index_def is_digit_def Object_prototype_keys_def)
  have h2: "(''R2'', ?st) \<in> set [(''R2'', ?st)]" by simp
  have h3: "\<forall>e\<in>set R2_events.
      ReferralEvent.referral_id e = ''R2'' \<longrightarrow> 0 \<le> seq e \<and> seq e \<le> MAX_SAFE_INTEGER"
    by (simp add: R2_events_def event_defs MAX_SAFE_INTEGER_def)
  have ev: "map seq (events ?st) = [1, 3]"
    by (simp add: process_referral_fields R2_events_def event_defs)
  from gap_accounting[OF h1 h2 h3] ev show ?thesis by simp
qed


section \<open>C5: duplicate idempotence\<close>

text \<open>
  Counterexample to claim C5 as stated. For the one-event input \<open>[R1_sent]\<close> the
  \<open>duplicates\<close> counter is 0; for the doubled input it is 1, which is not twice 0.
\<close>

theorem duplicates_not_doubled:
  "reconcile example_parseISO [R1_sent]
     = Inr [(''R1'', process_referral example_parseISO ''R1'' [R1_sent])] \<and>
   reconcile example_parseISO ([R1_sent] @ [R1_sent])
     = Inr [(''R1'', process_referral example_parseISO ''R1'' ([R1_sent] @ [R1_sent]))] \<and>
   duplicates (metrics (process_referral example_parseISO ''R1'' [R1_sent])) = 0 \<and>
   duplicates (metrics (process_referral example_parseISO ''R1'' ([R1_sent] @ [R1_sent]))) = 1 \<and>
   duplicates (metrics (process_referral example_parseISO ''R1'' ([R1_sent] @ [R1_sent])))
     \<noteq> 2 * duplicates (metrics (process_referral example_parseISO ''R1'' [R1_sent]))"
  by (simp add: reconcile_def R1_sent_def event_defs push_event_def own_properties_def
      array_index_def is_digit_def Object_prototype_keys_def process_referral_fields)

text \<open>
  Claim C5, amended. If \<open>reconcile\<close> raises on \<open>E\<close> it raises on \<open>E @ E\<close>; otherwise
  \<open>reconcile (E @ E)\<close> returns, for the same referrals, the states of \<open>reconcile E\<close> with
  one field changed: \<open>duplicates\<close> becomes twice its value plus the number of retained
  events. The retained events, status, active appointment, appointments and the other
  counters are identical.
\<close>

theorem duplicate_idempotence:
  "(\<forall>err. reconcile parseISO E = Inl err \<longrightarrow> reconcile parseISO (E @ E) = Inl err) \<and>
   (\<forall>m. reconcile parseISO E = Inr m \<longrightarrow>
      (\<exists>m'. reconcile parseISO (E @ E) = Inr m' \<and>
         (\<forall>r. map_of m' r =
            map_option (\<lambda>st. with_duplicates
                (2 * duplicates (metrics st) + int (length (events st))) st) (map_of m r))))"
proof (intro conjI allI impI)
  fix err assume "reconcile parseISO E = Inl err"
  then show "reconcile parseISO (E @ E) = Inl err" by (auto simp: reconcile_Inl)
next
  fix m assume m: "reconcile parseISO E = Inr m"
  have "\<not> (\<exists>err. reconcile parseISO (E @ E) = Inl err)"
    using m reconcile_Inl[of parseISO E] reconcile_Inl[of parseISO "E @ E"] by auto
  then obtain m' where m': "reconcile parseISO (E @ E) = Inr m'"
    by (cases "reconcile parseISO (E @ E)") auto
  have "map_of m' r =
            map_option (\<lambda>st. with_duplicates
                (2 * duplicates (metrics st) + int (length (events st))) st) (map_of m r)" for r
    unfolding reconcile_Inr(2)[OF m'] reconcile_Inr(2)[OF m]
    by (simp add: process_referral_doubled)
  with m' show "\<exists>m'. reconcile parseISO (E @ E) = Inr m' \<and>
         (\<forall>r. map_of m' r =
            map_option (\<lambda>st. with_duplicates
                (2 * duplicates (metrics st) + int (length (events st))) st) (map_of m r))"
    by blast
qed


theorem duplicate_idempotence_witness:
  "duplicates (metrics (process_referral example_parseISO ''R2'' (R2_events @ R2_events))) = 4 \<and>
   events (process_referral example_parseISO ''R2'' (R2_events @ R2_events))
     = events (process_referral example_parseISO ''R2'' R2_events)"
proof -
  let ?st = "process_referral example_parseISO ''R2'' R2_events"
  let ?st2 = "process_referral example_parseISO ''R2'' (R2_events @ R2_events)"
  have h1: "reconcile example_parseISO R2_events = Inr [(''R2'', ?st)]"
    by (simp add: reconcile_def R2_events_def event_defs push_event_def own_properties_def
        array_index_def is_digit_def Object_prototype_keys_def)
  have h2: "reconcile example_parseISO (R2_events @ R2_events) = Inr [(''R2'', ?st2)]"
    by (simp add: reconcile_def R2_events_def event_defs push_event_def own_properties_def
        array_index_def is_digit_def Object_prototype_keys_def)
  have d: "duplicates (metrics ?st) = 1" and l: "length (events ?st) = 2"
    by (simp_all add: process_referral_fields R2_events_def event_defs)
  from duplicate_idempotence[of example_parseISO R2_events] h1
  obtain m' where m': "reconcile example_parseISO (R2_events @ R2_events) = Inr m'"
    and eq: "\<And>r. map_of m' r =
      map_option (\<lambda>st. with_duplicates
                (2 * duplicates (metrics st) + int (length (events st))) st)
        (map_of [(''R2'', ?st)] r)"
    by auto
  from m' h2 have "m' = [(''R2'', ?st2)]" by simp
  with eq[of "''R2''"]
  have "?st2 = with_duplicates (2 * duplicates (metrics ?st) + int (length (events ?st))) ?st"
    by simp
  with d l show ?thesis by (simp add: with_duplicates_def)
qed


section \<open>C6: events of unknown type\<close>

text \<open>
  Claim C6 does not hold of the code; this is the code at a failing input. An admin posts
  the one-element array \<open>[bogus_event]\<close>, whose type is \<open>BOGUS\<close>. No schema is applied:
  the handler runs, answers 200, and one batch of four documents is committed, among them
  the event document of the unknown type.
\<close>

theorem unknown_type_is_accepted:
  "type bogus_event \<notin> set [''STATUS_UPDATE'', ''APPOINTMENT_SET'', ''APPOINTMENT_CANCELLED''] \<and>
   uploads_route example_verifier example_roles example_parseISO (\<lambda>i. Fulfilled 1)
       ''upload-1'' ''2025-01-01T00:00:00.000Z'' bogus_upload
     = Handled
         (upload_handler example_parseISO (\<lambda>i. Fulfilled 1) ''upload-1''
            ''2025-01-01T00:00:00.000Z''
            (bogus_upload\<lparr>user := Some \<lparr>uid = ''u2'', email = None, role = ''admin''\<rparr>\<rparr>)) \<and>
   http_status (fst (upload_handler example_parseISO (\<lambda>i. Fulfilled 1) ''upload-1''
            ''2025-01-01T00:00:00.000Z''
            (bogus_upload\<lparr>user := Some \<lparr>uid = ''u2'', email = None, role = ''admin''\<rparr>\<rparr>))) = 200 \<and>
   map (map (\<lambda>op. case op of Set_op ref data \<Rightarrow> ref | Update_op ref data \<Rightarrow> ref
                       | Delete_op ref \<Rightarrow> ref))
     (snd (upload_handler example_parseISO (\<lambda>i. Fulfilled 1) ''upload-1''
            ''2025-01-01T00:00:00.000Z''
            (bogus_upload\<lparr>user := Some \<lparr>uid = ''u2'', email = None, role = ''admin''\<rparr>\<rparr>)))
     = [[[''organizations'', ''default'', ''uploads'', ''upload-1''],
         [''organizations'', ''default'', ''metrics'', ''upload-1''],
         [''organizations'', ''default'', ''referrals'', ''R1'', ''events'', ''R1_1''],
         [''organizations'', ''default'', ''referrals'', ''R1'']]] \<and>
   Set_op [''organizations'', ''default'', ''referrals'', ''R1'', ''events'', ''R1_1'']
       (Event_document bogus_event ''upload-1'' ''2025-01-01T00:00:00.000Z'')
     \<in> set (concat (snd (upload_handler example_parseISO (\<lambda>i. Fulfilled 1) ''upload-1''
            ''2025-01-01T00:00:00.000Z''
            (bogus_upload\<lparr>user := Some \<lparr>uid = ''u2'', email = None, role = ''admin''\<rparr>\<rparr>))))"
proof -
  let ?req = "bogus_upload\<lparr>user := Some \<lparr>uid = ''u2'', email = None, role = ''admin''\<rparr>\<rparr>"
  let ?st = "process_referral example_parseISO ''R1'' [bogus_event]"
  have ty: "type bogus_event \<notin> set [''STATUS_UPDATE'', ''APPOINTMENT_SET'', ''APPOINTMENT_CANCELLED'']"
    by (simp add: bogus_event_def event_defs)
  have tok: "bearer_token ''Bearer admin-token'' = ''admin-token''"
    by (simp add: bearer_token_def startsWith_def)
  have route: "uploads_route example_verifier example_roles example_parseISO (\<lambda>i. Fulfilled 1)
       ''upload-1'' ''2025-01-01T00:00:00.000Z'' bogus_upload
     = Handled (upload_handler example_parseISO (\<lambda>i. Fulfilled 1) ''upload-1''
            ''2025-01-01T00:00:00.000Z'' ?req)"
    by (simp add: uploads_route_def admin_route_def authenticate_def requireAdmin_def
        bogus_upload_def tok example_verifier_def example_roles_def startsWith_def)
  have rec: "reconcile example_parseISO [bogus_event] = Inr [(''R1'', ?st)]"
    by (simp add: reconcile_def bogus_event_def event_defs push_event_def own_properties_def
        array_index_def is_digit_def Object_prototype_keys_def)
  have num: "Number_toString 1 = ''1''"
    by (simp add: Number_toString_def decimal.simps)
  have run: "upload_handler example_parseISO (\<lambda>i. Fulfilled 1) ''upload-1''
            ''2025-01-01T00:00:00.000Z'' ?req
     = (Upload_ok ''upload-1'' 1 1 (getDerivedMetrics [(''R1'', ?st)]),
        [[Set_op (upload_ref ''upload-1'')
            (Upload_document ''upload-1'' ''2025-01-01T00:00:00.000Z'' 1 1 ''COMPLETED''
               (getDerivedMetrics [(''R1'', ?st)])),
          Set_op (metrics_ref ''upload-1'')
            (Metrics_document (getDerivedMetrics [(''R1'', ?st)])
               ''2025-01-01T00:00:00.000Z'' ''upload-1''),
          Set_op (event_ref bogus_event)
            (Event_document bogus_event ''upload-1'' ''2025-01-01T00:00:00.000Z''),
          Set_op (referral_ref ''R1'')
            (Referral_document ?st ''2025-01-01T00:00:00.000Z'' ''upload-1'')]])"
    by (simp add: upload_handler_def input_events_def bogus_upload_def rec Object_keys_def
        own_properties_def array_index_def is_digit_def commit_def new_writer_def
        writer_set_def increment_def rotate_def MAX_BATCH_SIZE_def Let_def)
  have ref: "event_ref bogus_event
      = [''organizations'', ''default'', ''referrals'', ''R1'', ''events'', ''R1_1'']"
    by (simp add: event_ref_def bogus_event_def event_defs num)
  show ?thesis
    unfolding route run using ty
    by (simp add: http_status_def ref upload_ref_def metrics_ref_def referral_ref_def)
qed


section \<open>C7: data-quality ranking\<close>




section \<open>C8: the authentication gate\<close>

lemma authenticate_401:
  assumes "authorization req = None
           \<or> (\<exists>h. authorization req = Some h \<and>
                 (\<not> startsWith h ''Bearer '' \<or> (\<exists>msg. verifyIdToken (bearer_token h) = Inl msg)))"
  shows "\<exists>msg. authenticate verifyIdToken getUserData req = Inl (Response 401 msg)"
  using assms by (auto simp: authenticate_def split: option.splits sum.splits)

text \<open>
  Claim C8. (1) On a protected route and on the admin route, a request whose
  Authorization header is absent, or does not start with \<open>"Bearer "\<close>, or whose bearer
  token fails verification, is answered 401 and the handler does not run. (2) On the
  admin route, a request that \<open>authenticate\<close> lets through with a role other than
  \<open>admin\<close> is answered 403 and the handler does not run. (3) When the token verifies and
  the user document has no data or no role, the role attached to the request is
  \<open>viewer\<close>.
\<close>

theorem auth_gate:
  "(authorization req = None
      \<or> (\<exists>h. authorization req = Some h \<and>
            (\<not> startsWith h ''Bearer '' \<or> (\<exists>msg. verifyIdToken (bearer_token h) = Inl msg)))
    \<longrightarrow> rejected_with 401 (protected_route verifyIdToken getUserData handler req)
        \<and> rejected_with 401 (admin_route verifyIdToken getUserData handler req)) \<and>
   (\<forall>r. resolved_role (authenticate verifyIdToken getUserData req) = Some r \<and> r \<noteq> ''admin''
      \<longrightarrow> rejected_with 403 (admin_route verifyIdToken getUserData handler req)) \<and>
   (\<forall>h tok. authorization req = Some h \<and> startsWith h ''Bearer ''
        \<and> verifyIdToken (bearer_token h) = Inr tok
        \<and> getUserData (DecodedIdToken.uid tok) \<in> {Inr None, Inr (Some None)}
      \<longrightarrow> resolved_role (authenticate verifyIdToken getUserData req) = Some ''viewer'')"
proof (intro conjI allI impI)
  assume a: "authorization req = None
      \<or> (\<exists>h. authorization req = Some h \<and>
            (\<not> startsWith h ''Bearer '' \<or> (\<exists>msg. verifyIdToken (bearer_token h) = Inl msg)))"
  from authenticate_401[OF a, of getUserData]
  obtain msg where "authenticate verifyIdToken getUserData req = Inl (Response 401 msg)" by blast
  then show "rejected_with 401 (protected_route verifyIdToken getUserData handler req)"
    and "rejected_with 401 (admin_route verifyIdToken getUserData handler req)"
    by (simp_all add: protected_route_def admin_route_def rejected_with_def status_code_def)
next
  fix r
  assume "resolved_role (authenticate verifyIdToken getUserData req) = Some r \<and> r \<noteq> ''admin''"
  then show "rejected_with 403 (admin_route verifyIdToken getUserData handler req)"
    by (auto simp: resolved_role_def admin_route_def requireAdmin_def rejected_with_def
        status_code_def split: sum.splits option.splits)
next
  fix h tok
  assume "authorization req = Some h \<and> startsWith h ''Bearer ''
        \<and> verifyIdToken (bearer_token h) = Inr tok
        \<and> getUserData (DecodedIdToken.uid tok) \<in> {Inr None, Inr (Some None)}"
  then show "resolved_role (authenticate verifyIdToken getUserData req) = Some ''viewer''"
    by (auto simp: resolved_role_def authenticate_def)
qed

theorem auth_gate_witness:
  "rejected_with 401 (protected_route example_verifier example_roles (\<lambda>req. ()) (request_with None)) \<and>
   rejected_with 401
     (admin_route example_verifier example_roles (\<lambda>req. ()) (request_with (Some ''Bearer bad''))) \<and>
   rejected_with 403
     (admin_route example_verifier example_roles (\<lambda>req. ())
        (request_with (Some ''Bearer good-token''))) \<and>
   resolved_role (authenticate example_verifier example_roles
        (request_with (Some ''Bearer good-token''))) = Some ''viewer'' \<and>
   admin_route example_verifier example_roles (\<lambda>req. ())
        (request_with (Some ''Bearer admin-token'')) = Handled ()"
proof -
  have t1: "bearer_token ''Bearer bad'' = ''bad''"
    and t2: "bearer_token ''Bearer good-token'' = ''good-token''"
    and t3: "bearer_token ''Bearer admin-token'' = ''admin-token''"
    by (simp_all add: bearer_token_def startsWith_def)
  have a: "authorization (request_with None) = None"
    by (simp add: request_with_def)
  have b: "authorization (request_with (Some ''Bearer bad'')) = Some ''Bearer bad''
      \<and> (\<not> startsWith ''Bearer bad'' ''Bearer ''
          \<or> (\<exists>msg. example_verifier (bearer_token ''Bearer bad'') = Inl msg))"
    by (simp add: request_with_def t1 example_verifier_def)
  have c: "authorization (request_with (Some ''Bearer good-token'')) = Some ''Bearer good-token''
      \<and> startsWith ''Bearer good-token'' ''Bearer ''
      \<and> example_verifier (bearer_token ''Bearer good-token'')
          = Inr \<lparr>DecodedIdToken.uid = ''u1'', email = None\<rparr>
      \<and> example_roles (DecodedIdToken.uid \<lparr>DecodedIdToken.uid = ''u1'', email = None\<rparr>)
          \<in> {Inr None, Inr (Some None)}"
    by (simp add: request_with_def t2 example_verifier_def example_roles_def startsWith_def)
  have g1: "rejected_with 401
      (protected_route example_verifier example_roles (\<lambda>req. ()) (request_with None))"
    using auth_gate[of "request_with None" example_verifier example_roles "\<lambda>req. ()"] a
    by blast
  have g2: "rejected_with 401
     (admin_route example_verifier example_roles (\<lambda>req. ()) (request_with (Some ''Bearer bad'')))"
    using auth_gate[of "request_with (Some ''Bearer bad'')" example_verifier example_roles
        "\<lambda>req. ()"] b
    by blast
  have g3: "resolved_role (authenticate example_verifier example_roles
        (request_with (Some ''Bearer good-token''))) = Some ''viewer''"
    using auth_gate[of "request_with (Some ''Bearer good-token'')" example_verifier
        example_roles "\<lambda>req. ()"] c
    by blast
  have g4: "rejected_with 403
     (admin_route example_verifier example_roles (\<lambda>req. ())
        (request_with (Some ''Bearer good-token'')))"
    using auth_gate[of "request_with (Some ''Bearer good-token'')" example_verifier
        example_roles "\<lambda>req. ()"] g3
    by auto
  have g5: "admin_route example_verifier example_roles (\<lambda>req. ())
        (request_with (Some ''Bearer admin-token'')) = Handled ()"
    by (simp add: admin_route_def authenticate_def requireAdmin_def request_with_def t3
        example_verifier_def example_roles_def startsWith_def)
  from g1 g2 g3 g4 g5 show ?thesis by blast
qed


section \<open>C9: the chunked batch writer\<close>








section \<open>C10: malformed payloads and totality\<close>

text \<open>
  What holds. An event that lacks a field its type needs (\<open>lacks_needed_fields\<close>) leaves
  the replay state as it is, so the replay of the retained events gives the status, the
  appointments and the counters that the replay of the well-formed retained events
  alone gives; and \<open>reconcile\<close> returns whenever no \<open>referral_id\<close> is the name of a
  property that objects inherit.
\<close>

lemma malformed_event_is_ignored:
  "lacks_needed_fields e \<Longrightarrow> apply_event s e = s"
  by (cases s)
     (auto simp: lacks_needed_fields_def apply_event_def status_logic_def
        appointment_set_logic_def appointment_cancel_logic_def split: option.splits)

lemma replay_skips_malformed:
  "replay st xs = replay st (filter (\<lambda>e. \<not> lacks_needed_fields e) xs)"
proof -
  have "foldl apply_event s xs = foldl apply_event s (filter (\<lambda>e. \<not> lacks_needed_fields e) xs)"
    for s
    by (induction xs arbitrary: s) (simp_all add: malformed_event_is_ignored)
  then show ?thesis by (simp add: replay_def)
qed

lemma reconcile_returns_on_plain_ids:
  "\<forall>e\<in>set E. ReferralEvent.referral_id e \<notin> set Object_prototype_keys \<Longrightarrow>
   \<exists>m. reconcile parseISO E = Inr m"
  using reconcile_Inl[of parseISO E] by (cases "reconcile parseISO E") auto

text \<open>
  Claim C10 does not hold of the code; this is the code at a failing input. The event
  \<open>constructor_event\<close> is well formed and its \<open>referral_id\<close> is \<open>constructor\<close>. The lookup
  \<open>eventsByReferral["constructor"]\<close> finds the inherited \<open>Object.prototype.constructor\<close>,
  which is truthy, so no array is created and \<open>.push\<close> is not a function: \<open>reconcile\<close>
  raises \<open>TypeError\<close> instead of returning a map.
\<close>

theorem reconcile_raises_on_inherited_id:
  "reconcile example_parseISO [constructor_event] = Inl TypeError"
  by (simp add: reconcile_def constructor_event_def event_defs push_event_def
      Object_prototype_keys_def)

end
